theory Spec2Isabelle
  imports Main "HOL-Library.Sublist"
begin

text \<open>
  The job-tracking core of the PyMOL KVFinder-web Tools plugin: the \<open>Job\<close> class
  (\<open>upload\<close>, \<open>save\<close>, \<open>load\<close>, \<open>export\<close>) and the \<open>Worker\<close> thread (\<open>run\<close>, the handling
  of GET replies, \<open>_check_output_exists\<close>, \<open>erase_job_dir\<close>), as functions on an explicit
  world: the file tree, the open descriptors and the trace of signals, requests, timer
  waits and files opened. Exceptions are values; a method returns the world it leaves
  together with the exception it raised, if any.
\<close>

section \<open>Paths and the file system\<close>

text \<open>
  Paths are Python strings. \<open>join\<close> is \<open>os.path.join\<close> on POSIX for two arguments,
  \<open>basename\<close> is \<open>os.path.basename\<close>. The file system itself is keyed by the list of
  components of a path (\<open>split_path\<close>), so that \<open>a/b\<close> and \<open>a//b/\<close> name the same entry;
  the root (no component) is a directory.
\<close>

definition join :: "string \<Rightarrow> string \<Rightarrow> string" where
  "join a b =
     (if b \<noteq> [] \<and> hd b = CHR ''/'' then b
      else if a = [] \<or> last a = CHR ''/'' then a @ b
      else a @ ''/'' @ b)"

fun splitc :: "string \<Rightarrow> string \<Rightarrow> string list" where
  "splitc cur [] = (if cur = [] then [] else [cur])"
| "splitc cur (c # cs) =
     (if c = CHR ''/'' then (if cur = [] then splitc [] cs else cur # splitc [] cs)
      else splitc (cur @ [c]) cs)"

definition split_path :: "string \<Rightarrow> string list" where
  "split_path s = splitc [] s"

fun after_last_slash :: "string \<Rightarrow> string \<Rightarrow> string" where
  "after_last_slash cur [] = cur"
| "after_last_slash cur (c # cs) =
     (if c = CHR ''/'' then after_last_slash [] cs else after_last_slash (cur @ [c]) cs)"

definition basename :: "string \<Rightarrow> string" where
  "basename s = after_last_slash [] s"

text \<open>\<open>str.replace(old, '')\<close> for a non-empty \<open>old\<close>: every occurrence, left to right.\<close>

fun remove_all :: "string \<Rightarrow> string \<Rightarrow> string" where
  "remove_all old [] = []"
| "remove_all old (c # cs) =
     (if old \<noteq> [] \<and> take (length old) (c # cs) = old
      then remove_all old (drop (length old) (c # cs))
      else c # remove_all old cs)"

datatype toml = TNone | TStr string | TBool bool | TTable "(string \<times> toml) list"

text \<open>
  What \<open>toml.dump\<close> keeps of a value: a key whose value is None is left out, at every
  level.
\<close>

fun drop_none :: "toml \<Rightarrow> toml" where
  "drop_none (TTable t) =
     TTable (map (\<lambda>e. (fst e, drop_none (snd e))) (filter (\<lambda>e. snd e \<noteq> TNone) t))"
| "drop_none v = v"

datatype 'a entry = Missing | Null | Val 'a

text \<open>
  The dictionary that \<open>toml.load\<close> returns for a job file and that \<open>Job.__init__\<close>
  receives as \<open>parameters\<close>. \<open>Missing\<close> is an absent key, \<open>Null\<close> is Python's None.
\<close>

record job_info =
  p_status :: string
  p_id_added_manually :: "bool entry"
  p_pdb :: "string entry"
  p_ligand :: "string entry"
  p_output :: string
  p_base_name :: string
  p_modes :: "toml entry"
  p_step_size :: "toml entry"
  p_probes :: "toml entry"
  p_cutoffs :: "toml entry"
  p_visiblebox :: "toml entry"
  p_internalbox :: "toml entry"

datatype content = Text string | JobToml job_info

datatype node = Dir | File content

type_synonym fs = "(string list \<times> node) list"

datatype error =
    FileNotFoundError | FileExistsError | NotADirectoryError | IsADirectoryError
  | DirectoryNotEmpty | KeyError string | TypeError | AttributeError | TomlDecodeError
  | RecursionError

text \<open>
  What the program can observe and do to the outside: notifications to the interactive
  layer (the Qt signals of \<open>Worker\<close>), requests to the remote service, timer waits and
  files opened for writing.
\<close>

datatype event =
    Get string | Probe
  | IdSignal string | ServerUp | ServerDown | ServerStatusSignal bool
  | AvailableJobsSignal "string list"
  | Sleep nat
  | Opened string

text \<open>
  The outside world: the file tree, the open file descriptors (\<open>os.path.exists\<close> of an
  integer asks whether that descriptor is open) and, in order, everything done so far.
\<close>

record world =
  files :: fs
  open_fds :: "nat list"
  trace :: "event list"

definition lookupc :: "fs \<Rightarrow> string list \<Rightarrow> node option" where
  "lookupc t k = (if k = [] then Some Dir else map_of t k)"

definition lookup :: "fs \<Rightarrow> string \<Rightarrow> node option" where
  "lookup t p = lookupc t (split_path p)"

datatype pathlike = PStr string | PBool bool

fun path_exists :: "world \<Rightarrow> pathlike \<Rightarrow> bool" where
  "path_exists s (PStr p) = (lookup (files s) p \<noteq> None)"
| "path_exists s (PBool b) = ((if b then 1 else 0) \<in> set (open_fds s))"

definition isdir :: "fs \<Rightarrow> string \<Rightarrow> bool" where
  "isdir t p = (lookup t p = Some Dir)"

section \<open>File-system operations\<close>

definition put :: "fs \<Rightarrow> string list \<Rightarrow> node \<Rightarrow> fs" where
  "put t k n = (k, n) # filter (\<lambda>e. fst e \<noteq> k) t"

definition del :: "fs \<Rightarrow> string list \<Rightarrow> fs" where
  "del t k = filter (\<lambda>e. fst e \<noteq> k) t"

definition children :: "fs \<Rightarrow> string list \<Rightarrow> string list" where
  "children t d = remdups (map (\<lambda>e. last (fst e)) (filter (\<lambda>e. fst e \<noteq> [] \<and> butlast (fst e) = d) t))"

text \<open>\<open>os.listdir\<close>, \<open>os.remove\<close>, \<open>os.rmdir\<close>, \<open>os.mkdir\<close>.\<close>

definition listdir :: "fs \<Rightarrow> string \<Rightarrow> error + string list" where
  "listdir t d =
     (case lookupc t (split_path d) of
        None \<Rightarrow> Inl FileNotFoundError
      | Some (File c) \<Rightarrow> Inl NotADirectoryError
      | Some Dir \<Rightarrow> Inr (children t (split_path d)))"

definition os_remove :: "fs \<Rightarrow> string \<Rightarrow> error + fs" where
  "os_remove t p =
     (case lookupc t (split_path p) of
        None \<Rightarrow> Inl FileNotFoundError
      | Some Dir \<Rightarrow> Inl IsADirectoryError
      | Some (File c) \<Rightarrow> Inr (del t (split_path p)))"

definition os_rmdir :: "fs \<Rightarrow> string \<Rightarrow> error + fs" where
  "os_rmdir t d =
     (case lookupc t (split_path d) of
        None \<Rightarrow> Inl FileNotFoundError
      | Some (File c) \<Rightarrow> Inl NotADirectoryError
      | Some Dir \<Rightarrow>
          (if children t (split_path d) \<noteq> [] then Inl DirectoryNotEmpty
           else Inr (del t (split_path d))))"

definition os_mkdir :: "fs \<Rightarrow> string \<Rightarrow> error + fs" where
  "os_mkdir t p =
     (let k = split_path p in
      if lookupc t k \<noteq> None then Inl FileExistsError
      else case lookupc t (butlast k) of
             None \<Rightarrow> Inl FileNotFoundError
           | Some (File c) \<Rightarrow> Inl NotADirectoryError
           | Some Dir \<Rightarrow> Inr (put t k Dir))"

text \<open>\<open>open(p, "w")\<close>: creates the file or truncates it; the file is empty from then on.\<close>

definition open_w :: "fs \<Rightarrow> string \<Rightarrow> error + fs" where
  "open_w t p =
     (let k = split_path p in
      if lookupc t k = Some Dir then Inl IsADirectoryError
      else case lookupc t (butlast k) of
             None \<Rightarrow> Inl FileNotFoundError
           | Some (File c) \<Rightarrow> Inl NotADirectoryError
           | Some Dir \<Rightarrow> Inr (put t k (File (Text []))))"

text \<open>\<open>try: os.mkdir(d) except FileExistsError: pass\<close>.\<close>

definition mkdir_exist_ok :: "fs \<Rightarrow> string \<Rightarrow> error + fs" where
  "mkdir_exist_ok t d =
     (case os_mkdir t d of
        Inl e \<Rightarrow> (if e = FileExistsError then Inr t else Inl e)
      | Inr t' \<Rightarrow> Inr t')"

text \<open>
  A \<open>for\<close> loop over a list whose body may raise: the first exception ends the loop,
  and what the loop did until then stays done.
\<close>

fun for_each :: "('s \<Rightarrow> 'a \<Rightarrow> 's \<times> error option) \<Rightarrow> 's \<Rightarrow> 'a list \<Rightarrow> 's \<times> error option" where
  "for_each f s [] = (s, None)"
| "for_each f s (x # xs) =
     (case f s x of (s', Some e) \<Rightarrow> (s', Some e) | (s', None) \<Rightarrow> for_each f s' xs)"

definition keep :: "fs \<Rightarrow> error + fs \<Rightarrow> fs \<times> error option" where
  "keep t r = (case r of Inl e \<Rightarrow> (t, Some e) | Inr t' \<Rightarrow> (t', None))"

section \<open>Worker.erase\_job\_dir\<close>

text \<open>
  The first argument is the number of nested calls the interpreter still allows
  (Python raises RecursionError beyond its recursion limit).
\<close>

fun erase_job_dir :: "nat \<Rightarrow> fs \<Rightarrow> string \<Rightarrow> fs \<times> error option" where
  "erase_job_dir 0 t d = (t, Some RecursionError)"
| "erase_job_dir (Suc n) t d =
     (case listdir t d of
        Inl e \<Rightarrow> (t, Some e)
      | Inr names \<Rightarrow>
          (case for_each (\<lambda>t' f. if isdir t' (join d f) then erase_job_dir n t' (join d f)
                                  else keep t' (os_remove t' (join d f))) t names of
             (t', Some e) \<Rightarrow> (t', Some e)
           | (t', None) \<Rightarrow> keep t' (os_rmdir t' d)))"

section \<open>The job record\<close>

record settings =
  modes :: "toml option"
  step_size :: "toml option"
  probes :: "toml option"
  cutoffs :: "toml option"
  visiblebox :: "toml option"
  internalbox :: "toml option"

record results =
  pdb_kv :: string
  report :: string
  log :: string

text \<open>The body of a GET reply: \<open>{status, output?}\<close>.\<close>

record reply_body =
  r_status :: string
  r_output :: "results option"

record job =
  status :: string
  pdb :: "string option"
  ligand :: "string option"
  output_directory :: string
  base_name :: string
  id_added_manually :: bool
  job_id :: string
  input_pdb :: "content option"
  input_pdb_ligand :: "content option"
  input_settings :: settings
  job_output :: "reply_body option"

section \<open>Running effects in order\<close>

text \<open>
  A method that acts on the world returns the world it leaves and the exception it
  raised, if any; what it did before raising stays done.
\<close>

type_synonym outcome = "world \<times> error option"

definition emit :: "event \<Rightarrow> world \<Rightarrow> world" where
  "emit e w = w\<lparr>trace := trace w @ [e]\<rparr>"

definition prim :: "(fs \<Rightarrow> error + fs) \<Rightarrow> world \<Rightarrow> outcome" where
  "prim f w = (case f (files w) of Inl e \<Rightarrow> (w, Some e) | Inr t \<Rightarrow> (w\<lparr>files := t\<rparr>, None))"

definition seq :: "(world \<Rightarrow> outcome) \<Rightarrow> (world \<Rightarrow> outcome) \<Rightarrow> world \<Rightarrow> outcome" where
  "seq f g w = (case f w of (w', Some e) \<Rightarrow> (w', Some e) | (w', None) \<Rightarrow> g w')"

text \<open>
  \<open>open(p, "w")\<close> as the program does it: the file is created or emptied, and the
  opening is recorded.
\<close>

definition open_file :: "string \<Rightarrow> world \<Rightarrow> outcome" where
  "open_file p w =
     (case open_w (files w) p of
        Inl e \<Rightarrow> (w, Some e)
      | Inr t \<Rightarrow> (emit (Opened p) (w\<lparr>files := t\<rparr>), None))"

text \<open>
  The writes to an open file and its closing. What is written reaches the file at the
  latest when it is closed; here it arrives at the closing, in one piece. Right after
  the opening the file is empty, whatever the buffering.
\<close>

definition close_file :: "string \<Rightarrow> content \<Rightarrow> world \<Rightarrow> outcome" where
  "close_file p c w = (w\<lparr>files := put (files w) (split_path p) (File c)\<rparr>, None)"

text \<open>
  \<open>with open(p, "w") as f: f.write(body)\<close>. The file is opened, and emptied, before
  the body is evaluated; a body that raises before it has written leaves the empty
  file behind.
\<close>

definition with_open_w :: "string \<Rightarrow> error + content \<Rightarrow> world \<Rightarrow> outcome" where
  "with_open_w p body =
     seq (open_file p) (\<lambda>w. case body of Inl e \<Rightarrow> (w, Some e) | Inr c \<Rightarrow> close_file p c w)"

definition read_file :: "fs \<Rightarrow> string \<Rightarrow> error + content" where
  "read_file t p =
     (case lookup t p of
        None \<Rightarrow> Inl FileNotFoundError
      | Some Dir \<Rightarrow> Inl IsADirectoryError
      | Some (File c) \<Rightarrow> Inr c)"

section \<open>Strings\<close>

definition nl :: string where
  "nl = [CHR 0x0A]"

text \<open>\<open>s.split("\n")\<close> and \<open>sub in s\<close>.\<close>

fun split_nl :: "string \<Rightarrow> string \<Rightarrow> string list" where
  "split_nl cur [] = [cur]"
| "split_nl cur (c # cs) =
     (if c = CHR 0x0A then cur # split_nl [] cs else split_nl (cur @ [c]) cs)"

fun contains :: "string \<Rightarrow> string \<Rightarrow> bool" where
  "contains sub [] = (sub = [])"
| "contains sub (c # cs) = (take (length sub) (c # cs) = sub \<or> contains sub cs)"

text \<open>\<open>d[k] = v\<close> on a dictionary kept in insertion order.\<close>

fun dict_set :: "(string \<times> 'v) list \<Rightarrow> string \<Rightarrow> 'v \<Rightarrow> (string \<times> 'v) list" where
  "dict_set [] k v = [(k, v)]"
| "dict_set ((k', v') # d) k v = (if k' = k then (k, v) # d else (k', v') # dict_set d k v)"

text \<open>The two functions of the \<open>toml\<close> package the code calls, taken as given.\<close>

record tomllib =
  toml_loads :: "string \<Rightarrow> (string \<times> toml) list option"
  toml_dump :: "(string \<times> toml) list \<Rightarrow> string"

section \<open>Job.upload and Job.\_\_init\_\_\<close>

definition entry_get :: "string \<Rightarrow> 'a entry \<Rightarrow> error + 'a option" where
  "entry_get k e =
     (case e of Missing \<Rightarrow> Inl (KeyError k) | Null \<Rightarrow> Inr None | Val v \<Rightarrow> Inr (Some v))"

text \<open>\<open>self.pdb\<close> (or \<open>self.ligand\<close>): set when the key is present and not None.\<close>

definition structure_path :: "string \<Rightarrow> string entry \<Rightarrow> string option" where
  "structure_path out e =
     (case e of Val n \<Rightarrow> Some (join out (n @ ''.pdb'')) | Null \<Rightarrow> None | Missing \<Rightarrow> None)"

text \<open>
  \<open>if not os.path.exists(p): if name in cmd.get_names("all"): cmd.save(p, name, 0, "pdb")\<close>.
  The visualization host is the list of its object names with the text it saves for each.
\<close>

definition save_structure :: "(string \<times> string) list \<Rightarrow> string \<Rightarrow> string entry \<Rightarrow> world \<Rightarrow> outcome" where
  "save_structure pymol out e w =
     (case e of
        Val n \<Rightarrow>
          (if \<not> path_exists w (PStr (join out (n @ ''.pdb''))) then
             (case map_of pymol n of
                Some txt \<Rightarrow> with_open_w (join out (n @ ''.pdb'')) (Inr (Text txt)) w
              | None \<Rightarrow> (w, None))
           else (w, None))
      | Null \<Rightarrow> (w, None)
      | Missing \<Rightarrow> (w, None))"

text \<open>\<open>if self.pdb: self._add_pdb(self.pdb)\<close>: the file's contents, read at upload.\<close>

definition add_pdb :: "fs \<Rightarrow> string option \<Rightarrow> error + content option" where
  "add_pdb t p =
     (case p of
        None \<Rightarrow> Inr None
      | Some fn \<Rightarrow> (case read_file t fn of Inl e \<Rightarrow> Inl e | Inr c \<Rightarrow> Inr (Some c)))"

definition get_settings :: "job_info \<Rightarrow> error + settings" where
  "get_settings ps =
     (case entry_get ''modes'' (p_modes ps) of Inl e \<Rightarrow> Inl e | Inr m \<Rightarrow>
      case entry_get ''step_size'' (p_step_size ps) of Inl e \<Rightarrow> Inl e | Inr s \<Rightarrow>
      case entry_get ''probes'' (p_probes ps) of Inl e \<Rightarrow> Inl e | Inr p \<Rightarrow>
      case entry_get ''cutoffs'' (p_cutoffs ps) of Inl e \<Rightarrow> Inl e | Inr c \<Rightarrow>
      case entry_get ''visiblebox'' (p_visiblebox ps) of Inl e \<Rightarrow> Inl e | Inr v \<Rightarrow>
      case entry_get ''internalbox'' (p_internalbox ps) of Inl e \<Rightarrow> Inl e | Inr i \<Rightarrow>
      Inr \<lparr>modes = m, step_size = s, probes = p, cutoffs = c, visiblebox = v,
           internalbox = i\<rparr>)"

text \<open>
  \<open>Job(parameters)\<close>: the defaults of \<open>__init__\<close>, then \<open>upload\<close>. The identifier is
  None until the caller assigns it; it is the empty string here until then.
\<close>

definition upload :: "(string \<times> string) list \<Rightarrow> job_info \<Rightarrow> world \<Rightarrow> world \<times> (error + job)" where
  "upload pymol ps w =
     (case save_structure pymol (p_output ps) (p_pdb ps) w of
        (w1, Some e) \<Rightarrow> (w1, Inl e)
      | (w1, None) \<Rightarrow>
     (case save_structure pymol (p_output ps) (p_ligand ps) w1 of
        (w2, Some e) \<Rightarrow> (w2, Inl e)
      | (w2, None) \<Rightarrow>
     (case add_pdb (files w2) (structure_path (p_output ps) (p_pdb ps)) of
        Inl e \<Rightarrow> (w2, Inl e)
      | Inr ipdb \<Rightarrow>
     (case add_pdb (files w2) (structure_path (p_output ps) (p_ligand ps)) of
        Inl e \<Rightarrow> (w2, Inl e)
      | Inr ilig \<Rightarrow>
     (case get_settings ps of
        Inl e \<Rightarrow> (w2, Inl e)
      | Inr st \<Rightarrow>
          (w2, Inr \<lparr>status = p_status ps,
                    pdb = structure_path (p_output ps) (p_pdb ps),
                    ligand = structure_path (p_output ps) (p_ligand ps),
                    output_directory = p_output ps,
                    base_name = p_base_name ps,
                    id_added_manually = (p_id_added_manually ps = Val True),
                    job_id = [],
                    input_pdb = ipdb,
                    input_pdb_ligand = ilig,
                    input_settings = st,
                    job_output = None\<rparr>))))))"

section \<open>Job.save\<close>

definition job_dir :: "string \<Rightarrow> string \<Rightarrow> string" where
  "job_dir home i = join (join home ''.KVFinder-web'') i"

definition job_file :: "string \<Rightarrow> string \<Rightarrow> string" where
  "job_file home i = join (job_dir home i) ''job.toml''"

text \<open>The dictionary \<open>self.input["settings"]\<close>.\<close>

definition settings_dict :: "settings \<Rightarrow> (string \<times> toml) list" where
  "settings_dict st =
     (let tv = (\<lambda>v. case v of None \<Rightarrow> TNone | Some x \<Rightarrow> x) in
      [(''modes'', tv (modes st)), (''step_size'', tv (step_size st)),
       (''probes'', tv (probes st)), (''cutoffs'', tv (cutoffs st)),
       (''visiblebox'', tv (visiblebox st)), (''internalbox'', tv (internalbox st))])"

text \<open>The text that \<open>save\<close> writes, statement by statement.\<close>

definition save_text :: "tomllib \<Rightarrow> job \<Rightarrow> string" where
  "save_text lib j =
     ''# TOML configuration file for KVFinder-web job'' @ nl @ nl
     @ ''title = \"KVFinder-web job file\"'' @ nl @ nl
     @ ''status = \"'' @ status j @ ''\"'' @ nl @ nl
     @ (if id_added_manually j then ''id_added_manually = true'' @ nl @ nl else [])
     @ ''[files]'' @ nl
     @ (case pdb j of Some p \<Rightarrow> ''pdb = \"'' @ p @ ''\"'' @ nl | None \<Rightarrow> [])
     @ (case ligand j of Some l \<Rightarrow> ''ligand = \"'' @ l @ ''\"'' @ nl | None \<Rightarrow> [])
     @ ''output = \"'' @ output_directory j @ ''\"'' @ nl
     @ ''base_name = \"'' @ base_name j @ ''\"'' @ nl
     @ nl
     @ toml_dump lib (settings_dict (input_settings j))
     @ nl"

text \<open>
  The strings are written between double quotes as they are. A string of printable
  ASCII characters without a double quote or a backslash is read back by TOML as
  itself.
\<close>

definition plain :: "string \<Rightarrow> bool" where
  "plain s =
     (\<forall>c \<in> set s. c \<noteq> CHR ''\"'' \<and> c \<noteq> CHR 0x5C
                   \<and> 32 \<le> (of_char c :: nat) \<and> (of_char c :: nat) < 127)"

definition plain_record :: "job \<Rightarrow> bool" where
  "plain_record j =
     (plain (status j) \<and> plain (output_directory j) \<and> plain (base_name j)
      \<and> (case pdb j of None \<Rightarrow> True | Some p \<Rightarrow> plain p)
      \<and> (case ligand j of None \<Rightarrow> True | Some l \<Rightarrow> plain l))"

text \<open>
  \<open>toml.dump\<close> of one key of the settings, written after the \<open>[files]\<close> header: a table
  becomes a table of the document, without the keys whose value is None; None is
  skipped; a plain value would land inside \<open>[files]\<close>, so the document has no such
  top-level key.
\<close>

definition dumped :: "toml option \<Rightarrow> toml entry" where
  "dumped v = (case v of Some (TTable t) \<Rightarrow> Val (drop_none (TTable t)) | _ \<Rightarrow> Missing)"

definition opt_entry :: "'a option \<Rightarrow> 'a entry" where
  "opt_entry v = (case v of None \<Rightarrow> Missing | Some x \<Rightarrow> Val x)"

text \<open>The document that the text written by \<open>save\<close> denotes when its strings are plain.\<close>

definition save_doc :: "job \<Rightarrow> job_info" where
  "save_doc j =
     \<lparr>p_status = status j,
      p_id_added_manually = (if id_added_manually j then Val True else Missing),
      p_pdb = opt_entry (pdb j),
      p_ligand = opt_entry (ligand j),
      p_output = output_directory j,
      p_base_name = base_name j,
      p_modes = dumped (modes (input_settings j)),
      p_step_size = dumped (step_size (input_settings j)),
      p_probes = dumped (probes (input_settings j)),
      p_cutoffs = dumped (cutoffs (input_settings j)),
      p_visiblebox = dumped (visiblebox (input_settings j)),
      p_internalbox = dumped (internalbox (input_settings j))\<rparr>"

text \<open>
  What the record file holds after a save: the text written. A text whose strings are
  plain is kept as the document it denotes; any other text is kept as it is, and what
  is read back from it is up to the parser.
\<close>

definition record_content :: "tomllib \<Rightarrow> job \<Rightarrow> content" where
  "record_content lib j =
     (if plain_record j then JobToml (save_doc j) else Text (save_text lib j))"

text \<open>
  The first statements of \<open>save\<close>, up to the opening of the record file, and \<open>save\<close>:
  the rest writes the record and closes the file.
\<close>

definition save_begin :: "string \<Rightarrow> string \<Rightarrow> world \<Rightarrow> outcome" where
  "save_begin home i =
     seq (prim (\<lambda>t. mkdir_exist_ok t (job_dir home i))) (open_file (job_file home i))"

definition save :: "string \<Rightarrow> tomllib \<Rightarrow> job \<Rightarrow> string \<Rightarrow> world \<Rightarrow> outcome" where
  "save home lib j i =
     seq (save_begin home i) (close_file (job_file home i) (record_content lib j))"

section \<open>Job.load\<close>

definition fix_name :: "string entry \<Rightarrow> error + string entry" where
  "fix_name e =
     (case e of
        Missing \<Rightarrow> Inr Missing
      | Null \<Rightarrow> Inl TypeError
      | Val p \<Rightarrow> Inr (Val (remove_all ''.pdb'' (basename p))))"

definition treat_manual :: "job_info \<Rightarrow> job_info" where
  "treat_manual d =
     (if p_id_added_manually d = Val True
      then d\<lparr>p_modes := Null, p_step_size := Null, p_probes := Null, p_cutoffs := Null,
             p_visiblebox := Null, p_internalbox := Null\<rparr>
      else d)"

text \<open>
  The values of a parsed file as the code uses them: \<open>str(v)\<close> in an f-string and in
  comparisons (a table is never one of the three statuses), and \<open>if v\<close>.
\<close>

fun str_of :: "toml \<Rightarrow> string" where
  "str_of (TStr s) = s"
| "str_of (TBool b) = (if b then ''True'' else ''False'')"
| "str_of TNone = ''None''"
| "str_of (TTable t) = ''{}''"

fun truthy :: "toml \<Rightarrow> bool" where
  "truthy (TStr s) = (s \<noteq> [])"
| "truthy (TBool b) = b"
| "truthy TNone = False"
| "truthy (TTable t) = (t \<noteq> [])"

definition path_entry :: "toml option \<Rightarrow> error + string entry" where
  "path_entry v =
     (case v of None \<Rightarrow> Inr Missing | Some (TStr p) \<Rightarrow> Inr (Val p) | Some _ \<Rightarrow> Inl TypeError)"

definition key_entry :: "(string \<times> toml) list \<Rightarrow> string \<Rightarrow> toml entry" where
  "key_entry d k = (case map_of d k of None \<Rightarrow> Missing | Some TNone \<Rightarrow> Null | Some v \<Rightarrow> Val v)"

text \<open>
  A parsed file as the dictionary that \<open>load\<close> and \<open>upload\<close> read, with the exceptions of
  their lookups in the order of the code: \<open>job_info["files"]\<close>, \<open>os.path.basename\<close> of the
  two paths, then \<open>parameters["status"]\<close>, \<open>["files"]["output"]\<close> and
  \<open>["files"]["base_name"]\<close>, all of them before \<open>upload\<close> touches a file.
\<close>

definition as_job_info :: "(string \<times> toml) list \<Rightarrow> error + job_info" where
  "as_job_info d =
     (case map_of d ''files'' of
        None \<Rightarrow> Inl (KeyError ''files'')
      | Some (TTable f) \<Rightarrow>
          (case path_entry (map_of f ''pdb'') of Inl e \<Rightarrow> Inl e | Inr pd \<Rightarrow>
           case path_entry (map_of f ''ligand'') of Inl e \<Rightarrow> Inl e | Inr lg \<Rightarrow>
           case map_of d ''status'' of None \<Rightarrow> Inl (KeyError ''status'') | Some st \<Rightarrow>
           case map_of f ''output'' of None \<Rightarrow> Inl (KeyError ''output'') | Some out \<Rightarrow>
           case map_of f ''base_name'' of None \<Rightarrow> Inl (KeyError ''base_name'') | Some bn \<Rightarrow>
           Inr \<lparr>p_status = str_of st,
                p_id_added_manually =
                  (case map_of d ''id_added_manually'' of
                     None \<Rightarrow> Missing | Some v \<Rightarrow> Val (truthy v)),
                p_pdb = pd, p_ligand = lg, p_output = str_of out, p_base_name = str_of bn,
                p_modes = key_entry d ''modes'', p_step_size = key_entry d ''step_size'',
                p_probes = key_entry d ''probes'', p_cutoffs = key_entry d ''cutoffs'',
                p_visiblebox = key_entry d ''visiblebox'',
                p_internalbox = key_entry d ''internalbox''\<rparr>)
      | Some _ \<Rightarrow> Inl AttributeError)"

text \<open>\<open>toml.load\<close> of a file: a text goes through the parser of the package.\<close>

definition toml_load :: "tomllib \<Rightarrow> fs \<Rightarrow> string \<Rightarrow> error + job_info" where
  "toml_load lib t fn =
     (case read_file t fn of
        Inl e \<Rightarrow> Inl e
      | Inr (Text s) \<Rightarrow>
          (case toml_loads lib s of None \<Rightarrow> Inl TomlDecodeError | Some d \<Rightarrow> as_job_info d)
      | Inr (JobToml d) \<Rightarrow> Inr d)"

definition load :: "tomllib \<Rightarrow> (string \<times> string) list \<Rightarrow> string \<Rightarrow> world \<Rightarrow> world \<times> (error + job)" where
  "load lib pymol fn w =
     (case toml_load lib (files w) fn of
        Inl e \<Rightarrow> (w, Inl e)
      | Inr d \<Rightarrow>
     (case fix_name (p_pdb d) of
        Inl e \<Rightarrow> (w, Inl e)
      | Inr pd \<Rightarrow>
     (case fix_name (p_ligand d) of
        Inl e \<Rightarrow> (w, Inl e)
      | Inr lg \<Rightarrow> upload pymol (treat_manual (d\<lparr>p_pdb := pd, p_ligand := lg\<rparr>)) w)))"

section \<open>Job.export\<close>

text \<open>The properties \<open>cavity\<close>, \<open>report\<close> and \<open>log\<close>: None without an output.\<close>

definition output_field :: "(results \<Rightarrow> string) \<Rightarrow> job \<Rightarrow> error + string option" where
  "output_field f j =
     (case job_output j of
        None \<Rightarrow> Inr None
      | Some r \<Rightarrow>
          (case r_output r of
             None \<Rightarrow> Inl (KeyError ''output'')
           | Some res \<Rightarrow> Inr (Some (f res))))"

definition base_dir :: "job \<Rightarrow> string" where
  "base_dir j = join (output_directory j) (job_id j)"

definition cavity_fn :: "job \<Rightarrow> string" where
  "cavity_fn j = join (base_dir j) (base_name j @ ''.KVFinder.output.pdb'')"

definition report_fn :: "job \<Rightarrow> string" where
  "report_fn j = join (base_dir j) (base_name j @ ''.KVFinder.results.toml'')"

definition log_fn :: "job \<Rightarrow> string" where
  "log_fn j = join (base_dir j) ''KVFinder.log''"

definition parameter_fn :: "job \<Rightarrow> string" where
  "parameter_fn j =
     join (join (output_directory j) (job_id j)) (base_name j @ ''_parameters.toml'')"

definition opt_toml :: "string option \<Rightarrow> toml" where
  "opt_toml v = (case v of None \<Rightarrow> TNone | Some s \<Rightarrow> TStr s)"

definition export_cavity :: "job \<Rightarrow> world \<Rightarrow> outcome" where
  "export_cavity j =
     with_open_w (cavity_fn j)
       (case output_field pdb_kv j of
          Inl e \<Rightarrow> Inl e
        | Inr None \<Rightarrow> Inl TypeError
        | Inr (Some s) \<Rightarrow> Inr (Text s))"

definition merge_report :: "job \<Rightarrow> (string \<times> toml) list \<Rightarrow> error + (string \<times> toml) list" where
  "merge_report j rep =
     (case map_of rep ''FILES_PATH'' of
        None \<Rightarrow> Inl (KeyError ''FILES_PATH'')
      | Some (TTable fp) \<Rightarrow>
          Inr (dict_set rep ''FILES_PATH''
                (TTable (dict_set (dict_set (dict_set fp ''INPUT'' (opt_toml (pdb j)))
                                     ''LIGAND'' (opt_toml (ligand j)))
                           ''OUTPUT'' (TStr (cavity_fn j)))))
      | Some _ \<Rightarrow> Inl TypeError)"

definition log_line :: "job \<Rightarrow> string \<Rightarrow> string" where
  "log_line j line =
     (if contains ''Running parKVFinder for: '' line
        then ''Running parKVFinder for job ID: '' @ job_id j @ nl
      else if contains ''Dictionary: '' line then []
      else line @ nl)"

definition results_text :: "tomllib \<Rightarrow> (string \<times> toml) list \<Rightarrow> string" where
  "results_text lib rep =
     ''# TOML results file for parKVFinder software'' @ nl @ nl @ toml_dump lib rep"

definition log_text :: "job \<Rightarrow> string \<Rightarrow> string" where
  "log_text j s = concat (map (log_line j) (split_nl [] s))"

definition export_report :: "tomllib \<Rightarrow> job \<Rightarrow> world \<Rightarrow> outcome" where
  "export_report lib j w =
     (case output_field report j of
        Inl e \<Rightarrow> (w, Some e)
      | Inr None \<Rightarrow> (w, Some TypeError)
      | Inr (Some txt) \<Rightarrow>
          (case toml_loads lib txt of
             None \<Rightarrow> (w, Some TomlDecodeError)
           | Some rep \<Rightarrow>
               (case merge_report j rep of
                  Inl e \<Rightarrow> (w, Some e)
                | Inr rep' \<Rightarrow>
                    with_open_w (report_fn j)
                      (Inr (Text (results_text lib rep'))) w)))"

definition export_log :: "job \<Rightarrow> world \<Rightarrow> outcome" where
  "export_log j =
     with_open_w (log_fn j)
       (case output_field log j of
          Inl e \<Rightarrow> Inl e
        | Inr None \<Rightarrow> Inl AttributeError
        | Inr (Some s) \<Rightarrow> Inr (Text (log_text j s)))"

definition py_str :: "string option \<Rightarrow> string" where
  "py_str v = (case v of None \<Rightarrow> ''None'' | Some s \<Rightarrow> s)"

definition parameters_text :: "tomllib \<Rightarrow> job \<Rightarrow> string" where
  "parameters_text lib j =
     ''# TOML configuration file for KVFinder-web job.'' @ nl @ nl
     @ ''title = \"KVFinder-web parameters file\"'' @ nl @ nl
     @ ''[files]'' @ nl
     @ ''# The path of the input PDB file.'' @ nl
     @ ''pdb = \"'' @ py_str (pdb j) @ ''\"'' @ nl
     @ ''# The path for the ligand's PDB file.'' @ nl
     @ (case ligand j of Some l \<Rightarrow> ''ligand = \"'' @ l @ ''\"'' @ nl
                        | None \<Rightarrow> ''ligand = \"-\"'' @ nl)
     @ nl
     @ ''[settings]'' @ nl
     @ ''# Settings for cavity detection.'' @ nl @ nl
     @ toml_dump lib [(''settings'', TTable (settings_dict (input_settings j)))]
     @ nl"

definition export_parameters :: "tomllib \<Rightarrow> job \<Rightarrow> world \<Rightarrow> outcome" where
  "export_parameters lib j w =
     (if \<not> id_added_manually j
      then with_open_w (parameter_fn j) (Inr (Text (parameters_text lib j))) w
      else (w, None))"

definition export :: "tomllib \<Rightarrow> job \<Rightarrow> world \<Rightarrow> outcome" where
  "export lib j =
     seq (prim (\<lambda>t. mkdir_exist_ok t (base_dir j)))
    (seq (export_cavity j)
    (seq (export_report lib j)
    (seq (export_log j)
         (export_parameters lib j))))"

section \<open>The worker thread\<close>

text \<open>The timers (milliseconds) and the re-validation interval of the module.\<close>

definition time_restart_job_checks :: nat where "time_restart_job_checks = 5000"
definition time_server_down :: nat where "time_server_down = 60000"
definition time_no_jobs :: nat where "time_no_jobs = 5000"
definition time_between_jobs :: nat where "time_between_jobs = 2000"
definition time_wait_status :: nat where "time_wait_status = 5000"
definition times_job_completed_no_checked :: nat where "times_job_completed_no_checked = 500"

text \<open>\<open>QNetworkReply.error()\<close> of a finished GET, with the decoded body when there is none.\<close>

datatype net_reply =
  NoError reply_body | ContentNotFoundError | ConnectionRefusedError | OtherNetworkError

text \<open>
  What surrounds the worker: the home directory, the \<open>toml\<close> package, the objects of the
  visualization host, how deep the interpreter may still recurse, what the service
  answers to a GET for each identifier and to the probe of its root.
\<close>

record config =
  home :: string
  lib :: tomllib
  pymol :: "(string \<times> string) list"
  recursion_limit :: nat
  remote :: "string \<Rightarrow> net_reply"
  probe_ok :: bool

text \<open>
  The attributes of \<open>Worker\<close>, with the two local variables of \<open>run\<close> that live across
  the iterations of its loops.
\<close>

record worker =
  wait :: bool
  server_status :: bool
  job_info :: "job option"
  counter :: nat
  flag :: bool

type_synonym state = "worker \<times> world"

definition signal :: "event \<Rightarrow> state \<Rightarrow> state" where
  "signal e s = (fst s, emit e (snd s))"

definition get_jobs :: "string \<Rightarrow> fs \<Rightarrow> error + string list" where
  "get_jobs h t = listdir t (join h ''.KVFinder-web/'')"

section \<open>Worker.\_handle\_get\_response and Worker.\_get\_results\<close>

definition handle_no_error :: "config \<Rightarrow> reply_body \<Rightarrow> job \<Rightarrow> state \<Rightarrow> state \<times> error option" where
  "handle_no_error cfg reply j s =
     (let j' = j\<lparr>job_output := Some reply, status := r_status reply\<rparr>;
          k = (fst s)\<lparr>job_info := Some j'\<rparr> in
      case save (home cfg) (lib cfg) j' (job_id j') (snd s) of
        (w1, Some e) \<Rightarrow> ((k, w1), Some e)
      | (w1, None) \<Rightarrow>
          (let w2 = (if status j' = ''completed'' then fst (export (lib cfg) j' w1) else w1)
           in ((k, emit ServerUp w2), None)))"

definition handle_not_found :: "config \<Rightarrow> job \<Rightarrow> state \<Rightarrow> state \<times> error option" where
  "handle_not_found cfg j s =
     (let k = (fst s)\<lparr>wait := True\<rparr>;
          w1 = emit (IdSignal (job_id j)) (emit ServerUp (snd s)) in
      case erase_job_dir (recursion_limit cfg) (files w1) (job_dir (home cfg) (job_id j)) of
        (t, Some e) \<Rightarrow> ((k, w1\<lparr>files := t\<rparr>), None)
      | (t, None) \<Rightarrow>
          (case get_jobs (home cfg) t of
             Inl e \<Rightarrow> ((k, w1\<lparr>files := t\<rparr>), None)
           | Inr js \<Rightarrow> ((k, emit (AvailableJobsSignal js) (w1\<lparr>files := t\<rparr>)), None)))"

definition handle_get_response :: "config \<Rightarrow> net_reply \<Rightarrow> state \<Rightarrow> state \<times> error option" where
  "handle_get_response cfg r s =
     (case job_info (fst s) of
        None \<Rightarrow> (s, Some AttributeError)
      | Some j \<Rightarrow>
          (case r of
             NoError reply \<Rightarrow> handle_no_error cfg reply j s
           | ContentNotFoundError \<Rightarrow> handle_not_found cfg j s
           | ConnectionRefusedError \<Rightarrow> (signal ServerDown s, None)
           | OtherNetworkError \<Rightarrow> (s, None)))"

text \<open>
  The GET request, and its reply handled when it has finished: the reply is taken to
  arrive, and its handler to run, before \<open>run\<close> goes on to its next statement.
\<close>

definition get_results :: "config \<Rightarrow> string \<Rightarrow> state \<Rightarrow> state \<times> error option" where
  "get_results cfg i s = handle_get_response cfg (remote cfg i) (signal (Get i) s)"

section \<open>Worker.\_check\_output\_exists\<close>

definition check_output_exists :: "world \<Rightarrow> job \<Rightarrow> bool" where
  "check_output_exists s j =
     (let base_dir = join (output_directory j) (job_id j);
          log_p = join base_dir ''KVFinder.log'';
          report_p = join base_dir (base_name j @ ''.KVFinder.results.toml'');
          cavity_p = join base_dir (base_name j @ ''.KVFinder.output.pdb'');
          parameters = (if \<not> id_added_manually j
                        then PStr (join base_dir (base_name j @ ''_parameters.toml''))
                        else PBool True);
          log_exist = path_exists s (PStr log_p);
          report_exist = path_exists s (PStr report_p);
          cavity_exist = path_exists s (PStr cavity_p);
          parameters_exist = path_exists s parameters
      in log_exist \<and> report_exist \<and> cavity_exist \<and> parameters_exist)"

section \<open>Worker.run\<close>

text \<open>
  The loop that waits for the interactive layer. Each wait of the timer takes the next
  element of the list, which says whether the slot \<open>wait_status(False)\<close> ran during that
  wait; the loop has not returned when the list is used up with the flag still set.
\<close>

fun wait_loop :: "state \<Rightarrow> bool list \<Rightarrow> (state \<times> bool list) option" where
  "wait_loop s [] = (if wait (fst s) then None else Some (s, []))"
| "wait_loop s (a # acks) =
     (if wait (fst s)
      then wait_loop (signal (Sleep time_wait_status)
                        ((fst s)\<lparr>wait := (if a then False else wait (fst s))\<rparr>, snd s)) acks
      else Some (s, a # acks))"

text \<open>The status of a job whose results are on disk: fetched only when the counter is due.\<close>

definition check_completed :: "config \<Rightarrow> string \<Rightarrow> state \<Rightarrow> state \<times> error option" where
  "check_completed cfg i s =
     (if counter (fst s) = times_job_completed_no_checked
      then (case get_results cfg i s of
              (s', Some e) \<Rightarrow> (s', Some e)
            | (s', None) \<Rightarrow> (((fst s')\<lparr>counter := 0, flag := True\<rparr>, snd s'), None))
      else (((fst s)\<lparr>flag := True\<rparr>, snd s), None))"

definition handle_status :: "config \<Rightarrow> string \<Rightarrow> job \<Rightarrow> state \<Rightarrow> state \<times> error option" where
  "handle_status cfg i j s =
     (if status j = ''queued'' \<or> status j = ''running'' then get_results cfg i s
      else if status j = ''completed'' then
        (if \<not> check_output_exists (snd s) j then get_results cfg i s
         else check_completed cfg i s)
      else (s, None))"

text \<open>The body of \<open>for job_id in jobs\<close>; \<open>n\<close> is \<open>len(jobs)\<close>.\<close>

definition check_job :: "config \<Rightarrow> nat \<Rightarrow> state \<Rightarrow> string \<Rightarrow> state \<times> error option" where
  "check_job cfg n s i =
     (case load (lib cfg) (pymol cfg) (job_file (home cfg) i) (snd s) of
        (w1, Inl e) \<Rightarrow> ((fst s, w1), Some e)
      | (w1, Inr j0) \<Rightarrow>
          (let j = j0\<lparr>job_id := i\<rparr> in
           case handle_status cfg i j ((fst s)\<lparr>job_info := Some j\<rparr>, w1) of
             (s', Some e) \<Rightarrow> (s', Some e)
           | (s', None) \<Rightarrow>
               ((if n > 1 then signal (Sleep time_between_jobs) s' else s'), None)))"

text \<open>The branch of \<open>run\<close> that checks every job, from \<open>flag = False\<close> to the last timer.\<close>

definition check_jobs :: "config \<Rightarrow> string list \<Rightarrow> state \<Rightarrow> state \<times> error option" where
  "check_jobs cfg jobs s =
     (case for_each (check_job cfg (length jobs)) ((fst s)\<lparr>flag := False\<rparr>, snd s) jobs of
        (s1, Some e) \<Rightarrow> (s1, Some e)
      | (s1, None) \<Rightarrow>
          (let k = (if flag (fst s1)
                    then (fst s1)\<lparr>counter := counter (fst s1) + 1, flag := False\<rparr>
                    else fst s1)
           in (signal (Sleep time_restart_job_checks) (k, snd s1), None)))"

text \<open>
  \<open>while not status\<close>: the body signals and waits and never probes again, so the loop
  returns only when it is entered with the service up.
\<close>

partial_function (option) service_down_loop :: "bool \<Rightarrow> state \<Rightarrow> state option" where
  "service_down_loop st s =
     (if \<not> st
      then service_down_loop st (signal (Sleep time_server_down) (signal (ServerStatusSignal st) s))
      else Some s)"

declare service_down_loop.simps [code]

definition service_check :: "config \<Rightarrow> state \<Rightarrow> state option" where
  "service_check cfg s =
     (case service_down_loop (probe_ok cfg) (signal Probe s) of
        None \<Rightarrow> None
      | Some s1 \<Rightarrow>
          Some (signal (Sleep time_no_jobs)
                  (signal (ServerStatusSignal (probe_ok cfg))
                     ((fst s1)\<lparr>server_status := probe_ok cfg\<rparr>, snd s1))))"

text \<open>
  One iteration of \<open>while True\<close>, after the wait loop: discover the jobs, then check
  them or check the service. None: the iteration does not end.
\<close>

definition cycle :: "config \<Rightarrow> state \<Rightarrow> (state \<times> error option) option" where
  "cycle cfg s =
     (case get_jobs (home cfg) (files (snd s)) of
        Inl e \<Rightarrow> Some (s, Some e)
      | Inr jobs \<Rightarrow>
          (let s1 = signal (AvailableJobsSignal jobs) s in
           if jobs \<noteq> [] \<and> server_status (fst s1) then Some (check_jobs cfg jobs s1)
           else (case service_check cfg s1 of
                   None \<Rightarrow> None
                 | Some s2 \<Rightarrow> Some (s2, None))))"

section \<open>Notions used in the statements and proofs\<close>

text \<open>
  Directories are the same in two trees; a sequence of files written in order, and the
  entries it leaves; the events between two worlds; a method that causes no other
  events than those of a set.
\<close>

definition same_dirs :: "fs \<Rightarrow> fs \<Rightarrow> bool" where
  "same_dirs t t' = (\<forall>k. (lookupc t k = Some Dir) = (lookupc t' k = Some Dir))"

fun writes :: "(string \<times> content) list \<Rightarrow> world \<Rightarrow> outcome" where
  "writes [] w = (w, None)"
| "writes (x # xs) w = seq (with_open_w (fst x) (Inr (snd x))) (writes xs) w"

definition written :: "(string \<times> content) list \<Rightarrow> (string list \<times> node) list" where
  "written xs = rev (map (\<lambda>x. (split_path (fst x), File (snd x))) xs)"

definition events_since :: "world \<Rightarrow> world \<Rightarrow> event list" where
  "events_since w w' = drop (length (trace w)) (trace w')"

definition only_events :: "(world \<Rightarrow> outcome) \<Rightarrow> event set \<Rightarrow> bool" where
  "only_events f A =
     (\<forall>w w' e. f w = (w', e) \<longrightarrow> (\<exists>evs. trace w' = trace w @ evs \<and> set evs \<subseteq> A))"

text \<open>The cases in which the loop body sends a GET for the job it has loaded.\<close>

definition fetched :: "config \<Rightarrow> worker \<Rightarrow> world \<Rightarrow> job \<Rightarrow> bool" where
  "fetched cfg k w j =
     (status j = ''queued'' \<or> status j = ''running''
      \<or> status j = ''completed''
        \<and> (\<not> check_output_exists w j \<or> counter k = times_job_completed_no_checked))"

text \<open>
  A name of a directory entry; a tree in which every entry has proper names and lies in
  a directory; a tree that goes less than \<open>n\<close> levels deep from a directory on; the
  tree without a directory and all below it.
\<close>

definition component :: "string \<Rightarrow> bool" where
  "component c = (c \<noteq> [] \<and> CHR ''/'' \<notin> set c)"

definition well_formed :: "fs \<Rightarrow> bool" where
  "well_formed t =
     (\<forall>k \<in> fst ` set t. k \<noteq> [] \<and> (\<forall>c \<in> set k. component c) \<and> lookupc t (butlast k) = Some Dir)"

definition shallow :: "fs \<Rightarrow> string list \<Rightarrow> nat \<Rightarrow> bool" where
  "shallow t k n = (\<forall>k' \<in> fst ` set t. prefix k k' \<longrightarrow> length k' < length k + n)"

definition rm_tree :: "fs \<Rightarrow> string list \<Rightarrow> fs" where
  "rm_tree t k = filter (\<lambda>e. \<not> prefix k (fst e)) t"

fun is_id_signal :: "event \<Rightarrow> bool" where
  "is_id_signal (IdSignal i) = True"
| "is_id_signal e = False"

text \<open>
  A structure path that \<open>load\<close> recovers from its own file name and whose file is on
  disk; settings that are None for a job added manually and tables without None
  otherwise.
\<close>

definition structure_ok :: "fs \<Rightarrow> string \<Rightarrow> string option \<Rightarrow> bool" where
  "structure_ok t out p =
     (case p of
        None \<Rightarrow> True
      | Some q \<Rightarrow> join out (remove_all ''.pdb'' (basename q) @ ''.pdb'') = q
                  \<and> (\<exists>c. lookup t q = Some (File c)))"

definition settings_ok :: "job \<Rightarrow> bool" where
  "settings_ok j =
     (let st = input_settings j; vs = [modes st, step_size st, probes st, cutoffs st,
                                        visiblebox st, internalbox st]
      in if id_added_manually j then \<forall>v \<in> set vs. v = None
         else \<forall>v \<in> set vs. \<exists>t. v = Some (TTable t) \<and> drop_none (TTable t) = TTable t)"


text \<open>The files that an export writes, in order, with their contents.\<close>

definition exported_files ::
  "tomllib \<Rightarrow> job \<Rightarrow> string \<Rightarrow> (string \<times> toml) list \<Rightarrow> string \<Rightarrow> (string \<times> content) list" where
  "exported_files L j cav rep lg =
     [(cavity_fn j, Text cav), (report_fn j, Text (results_text L rep)),
      (log_fn j, Text (log_text j lg))]
     @ (if id_added_manually j then []
        else [(parameter_fn j, Text (parameters_text L j))])"

text \<open>
  A job of the store that the pass meets completed and with its result files on disk:
  its record loads, says \<open>completed\<close>, and \<open>check_output_exists\<close> holds. Whether a pass
  over \<open>jobs\<close> that starts in \<open>s\<close> meets such a job is decided job after job, each in the
  state the jobs before it have left.
\<close>

definition complete_on_disk :: "config \<Rightarrow> world \<Rightarrow> string \<Rightarrow> bool" where
  "complete_on_disk cfg w i =
     (case load (lib cfg) (pymol cfg) (job_file (home cfg) i) w of
        (w1, Inl e) \<Rightarrow> False
      | (w1, Inr j0) \<Rightarrow> status j0 = ''completed'' \<and> check_output_exists w1 (j0\<lparr>job_id := i\<rparr>))"

fun met_complete :: "config \<Rightarrow> nat \<Rightarrow> state \<Rightarrow> string list \<Rightarrow> bool" where
  "met_complete cfg n s [] = False"
| "met_complete cfg n s (i # jobs) =
     (complete_on_disk cfg (snd s) i
      \<or> (case check_job cfg n s i of
            (s', None) \<Rightarrow> met_complete cfg n s' jobs
          | (s', Some e) \<Rightarrow> False))"

text \<open>The state in which the loop over the jobs of a pass starts.\<close>

definition pass_start :: "state \<Rightarrow> state" where
  "pass_start s = ((fst s)\<lparr>flag := False\<rparr>, snd s)"

section \<open>Concrete jobs and worlds\<close>

definition no_settings :: settings where
  "no_settings = \<lparr>modes = None, step_size = None, probes = None, cutoffs = None,
                   visiblebox = None, internalbox = None\<rparr>"

text \<open>A completed job added by hand, with its three result files on disk.\<close>

definition jm :: job where
  "jm = \<lparr>status = ''completed'', pdb = None, ligand = None, output_directory = ''/out'',
         base_name = ''r'', id_added_manually = True, job_id = ''A'', input_pdb = None,
         input_pdb_ligand = None, input_settings = no_settings, job_output = None\<rparr>"

definition wm :: world where
  "wm = \<lparr>files = [([''out''], Dir), ([''out'', ''A''], Dir),
                  ([''out'', ''A'', ''KVFinder.log''], File (Text ''l'')),
                  ([''out'', ''A'', ''r.KVFinder.results.toml''], File (Text ''r'')),
                  ([''out'', ''A'', ''r.KVFinder.output.pdb''], File (Text ''c''))],
         open_fds = [0, 1, 2], trace = []\<rparr>"

text \<open>The same world with the standard output closed.\<close>

definition wm_closed :: world where
  "wm_closed = wm\<lparr>open_fds := [0, 2]\<rparr>"

text \<open>
  A stand-in for the \<open>toml\<close> package (it reads one document and prints the keys of a
  dictionary), a reply of the service, and jobs with that reply as their output.
\<close>

definition lib0 :: tomllib where
  "lib0 = \<lparr>toml_loads = (\<lambda>s. if s = ''[FILES_PATH]'' then Some [(''FILES_PATH'', TTable [])] else None),
           toml_dump = (\<lambda>d. concat (map (\<lambda>e. fst e @ nl) d))\<rparr>"

definition reply0 :: reply_body where
  "reply0 = \<lparr>r_status = ''completed'',
             r_output = Some \<lparr>pdb_kv = ''ATOM'', report = ''[FILES_PATH]'', log = ''ok''\<rparr>\<rparr>"

definition jm2 :: job where
  "jm2 = jm\<lparr>job_output := Some reply0\<rparr>"

definition jx :: job where
  "jx = jm\<lparr>job_output := Some reply0, id_added_manually := False, job_id := ''B''\<rparr>"

definition wx :: world where
  "wx = \<lparr>files = [([''out''], Dir)], open_fds = [0, 1, 2], trace = []\<rparr>"

definition some_settings :: settings where
  "some_settings = \<lparr>modes = Some (TTable [(''box_mode'', TBool False)]),
                     step_size = Some (TTable [(''step_size'', TStr ''0.0'')]),
                     probes = Some (TTable []), cutoffs = Some (TTable []),
                     visiblebox = Some (TTable []), internalbox = Some (TTable [])\<rparr>"

text \<open>A job submitted for the object \<open>a.pdb\<close> of the host, saved as \<open>/out/a.pdb.pdb\<close>.\<close>

definition jp :: job where
  "jp = \<lparr>status = ''queued'', pdb = Some ''/out/a.pdb.pdb'', ligand = None,
         output_directory = ''/out'', base_name = ''r'', id_added_manually = False,
         job_id = ''A'', input_pdb = Some (Text ''ATOM''), input_pdb_ligand = None,
         input_settings = some_settings, job_output = None\<rparr>"

definition wp :: world where
  "wp = \<lparr>files = [([''out''], Dir), ([''out'', ''a.pdb.pdb''], File (Text ''ATOM'')),
                  ([''home''], Dir), ([''home'', ''.KVFinder-web''], Dir)],
         open_fds = [0, 1, 2], trace = []\<rparr>"

text \<open>A queued job whose record is on disk, saved again with a new status.\<close>

definition jq :: job where
  "jq = jp\<lparr>pdb := None, input_pdb := None\<rparr>"

definition wq :: world where
  "wq = fst (save ''/home'' lib0 jq ''A'' wp)"

text \<open>
  A store with two queued jobs; a worker that believes the service up; a service that
  refuses the connection for job \<open>A\<close>, and one that no longer knows job \<open>A\<close>.
\<close>

definition running_reply :: reply_body where
  "running_reply = \<lparr>r_status = ''running'', r_output = None\<rparr>"

definition store2 :: world where
  "store2 = \<lparr>files = [([''out''], Dir), ([''home''], Dir), ([''home'', ''.KVFinder-web''], Dir),
                     ([''home'', ''.KVFinder-web'', ''A''], Dir),
                     ([''home'', ''.KVFinder-web'', ''A'', ''job.toml''], File (JobToml (save_doc jq))),
                     ([''home'', ''.KVFinder-web'', ''B''], Dir),
                     ([''home'', ''.KVFinder-web'', ''B'', ''job.toml''], File (JobToml (save_doc jq)))],
             open_fds = [0, 1, 2], trace = []\<rparr>"

definition worker0 :: worker where
  "worker0 = \<lparr>wait = False, server_status = True, job_info = None, counter = 0, flag = False\<rparr>"

definition cfg_refused :: config where
  "cfg_refused = \<lparr>home = ''/home'', lib = lib0, pymol = [], recursion_limit = 1000,
                   remote = (\<lambda>i. if i = ''A'' then ConnectionRefusedError else NoError running_reply),
                   probe_ok = True\<rparr>"

definition cfg_expired :: config where
  "cfg_expired = cfg_refused\<lparr>remote := (\<lambda>i. if i = ''A'' then ContentNotFoundError else NoError running_reply)\<rparr>"

text \<open>
  A store with one completed job whose results are on disk, and a worker whose counter
  has reached the re-validation interval.
\<close>

definition store3 :: world where
  "store3 = wm\<lparr>files := files wm @
              [([''home''], Dir), ([''home'', ''.KVFinder-web''], Dir),
               ([''home'', ''.KVFinder-web'', ''A''], Dir),
               ([''home'', ''.KVFinder-web'', ''A'', ''job.toml''], File (JobToml (save_doc jm)))]\<rparr>"

definition cfg_forced :: config where
  "cfg_forced = \<lparr>home = ''/home'', lib = lib0, pymol = [], recursion_limit = 1000,
                  remote = (\<lambda>i. NoError reply0), probe_ok = True\<rparr>"

definition worker_due :: worker where
  "worker_due = worker0\<lparr>counter := times_job_completed_no_checked\<rparr>"

text \<open>The worker after it has loaded job \<open>A\<close>.\<close>

definition worker_a :: worker where
  "worker_a = worker0\<lparr>job_info := Some jq\<rparr>"

section \<open>Properties\<close>

subsection \<open>Files written in order\<close>

lemma map_of_filter_fst: "k' \<noteq> k \<Longrightarrow> map_of (filter (\<lambda>e. fst e \<noteq> k) t) k' = map_of t k'"
  by (induction t) auto

lemma map_of_filter_self: "map_of (filter (\<lambda>e. fst e \<noteq> k) t) k = None"
  by (induction t) auto

lemma lookupc_put:
  "k \<noteq> [] \<Longrightarrow> lookupc (put t k n) k' = (if k' = k then Some n else lookupc t k')"
  by (simp add: lookupc_def put_def map_of_filter_fst)

lemma with_open_w_unfold:
  "with_open_w p body w =
     (case open_w (files w) p of
        Inl e \<Rightarrow> (w, Some e)
      | Inr t \<Rightarrow>
          (let w' = emit (Opened p) (w\<lparr>files := t\<rparr>) in
           case body of
             Inl e \<Rightarrow> (w', Some e)
           | Inr c \<Rightarrow> (w'\<lparr>files := put t (split_path p) (File c)\<rparr>, None)))"
  by (simp add: with_open_w_def seq_def open_file_def close_file_def emit_def Let_def
           split: sum.splits)

lemma open_w_Inr:
  assumes "open_w t p = Inr t'"
  shows "split_path p \<noteq> []" and "t' = put t (split_path p) (File (Text []))"
    and "lookupc t (split_path p) \<noteq> Some Dir"
    and "lookupc t (butlast (split_path p)) = Some Dir"
  using assms
  by (auto simp: open_w_def Let_def lookupc_def split: option.splits node.splits if_splits)

lemma open_w_succeeds:
  "lookupc t (split_path p) \<noteq> Some Dir \<Longrightarrow> lookupc t (butlast (split_path p)) = Some Dir
   \<Longrightarrow> open_w t p = Inr (put t (split_path p) (File (Text [])))"
  by (simp add: open_w_def Let_def)

lemma with_open_w_ok:
  assumes "with_open_w p (Inr c) w = (w', None)"
  shows "split_path p \<noteq> []"
    and "lookupc (files w) (split_path p) \<noteq> Some Dir"
    and "lookupc (files w) (butlast (split_path p)) = Some Dir"
    and "lookupc (files w') = (lookupc (files w))(split_path p := Some (File c))"
    and "trace w' = trace w @ [Opened p]"
    and "open_fds w' = open_fds w"
proof -
  from assms obtain t where t: "open_w (files w) p = Inr t"
    by (auto simp: with_open_w_unfold split: sum.splits)
  note o = open_w_Inr [OF t]
  from o show "split_path p \<noteq> []" "lookupc (files w) (split_path p) \<noteq> Some Dir"
    "lookupc (files w) (butlast (split_path p)) = Some Dir" by auto
  from assms t have w': "w' = (emit (Opened p) (w\<lparr>files := t\<rparr>))\<lparr>files := put t (split_path p) (File c)\<rparr>"
    by (simp add: with_open_w_unfold Let_def)
  show "trace w' = trace w @ [Opened p]" "open_fds w' = open_fds w"
    by (simp_all add: w' emit_def)
  show "lookupc (files w') = (lookupc (files w))(split_path p := Some (File c))"
    using o(1) by (auto simp: w' emit_def o(2) lookupc_put fun_eq_iff)
qed

lemma with_open_w_succeeds:
  assumes "lookupc (files w) (split_path p) \<noteq> Some Dir"
    and "lookupc (files w) (butlast (split_path p)) = Some Dir"
  shows "\<exists>w'. with_open_w p (Inr c) w = (w', None)"
  using assms by (simp add: with_open_w_unfold open_w_succeeds Let_def)

lemma same_dirs_write:
  assumes "with_open_w p (Inr c) w = (w', None)"
  shows "same_dirs (files w) (files w')"
  using with_open_w_ok(1,2,4) [OF assms] by (auto simp: same_dirs_def)

lemma same_dirs_trans: "same_dirs a b \<Longrightarrow> same_dirs b c \<Longrightarrow> same_dirs a c"
  by (simp add: same_dirs_def)

lemma writes_lookupc:
  "writes xs w = (w', None) \<Longrightarrow>
     lookupc (files w') = lookupc (files w) ++ map_of (written xs) \<and> same_dirs (files w) (files w')"
proof (induction xs arbitrary: w)
  case Nil
  then show ?case by (simp add: written_def same_dirs_def)
next
  case (Cons x xs)
  from Cons.prems obtain w1 where s1: "with_open_w (fst x) (Inr (snd x)) w = (w1, None)"
    and s2: "writes xs w1 = (w', None)"
    by (auto simp: seq_def split: prod.splits option.splits)
  from Cons.IH [OF s2] have a: "lookupc (files w') = lookupc (files w1) ++ map_of (written xs)"
    and b: "same_dirs (files w1) (files w')" by auto
  have c: "lookupc (files w1) = (lookupc (files w))(split_path (fst x) := Some (File (snd x)))"
    by (rule with_open_w_ok(4) [OF s1])
  have "map_of (written (x # xs)) = [split_path (fst x) \<mapsto> File (snd x)] ++ map_of (written xs)"
    by (simp add: written_def map_of_append)
  then have "lookupc (files w) ++ map_of (written (x # xs))
             = (lookupc (files w))(split_path (fst x) \<mapsto> File (snd x)) ++ map_of (written xs)"
    by simp
  with a c same_dirs_trans [OF same_dirs_write [OF s1] b] show ?case by simp
qed

lemma writes_again:
  "writes xs w = (w', None) \<Longrightarrow> same_dirs (files w) (files v) \<Longrightarrow> \<exists>v'. writes xs v = (v', None)"
proof (induction xs arbitrary: w v)
  case Nil
  then show ?case by simp
next
  case (Cons x xs)
  from Cons.prems(1) obtain w1 where s1: "with_open_w (fst x) (Inr (snd x)) w = (w1, None)"
    and s2: "writes xs w1 = (w', None)"
    by (auto simp: seq_def split: prod.splits option.splits)
  from with_open_w_ok(2,3) [OF s1] Cons.prems(2)
  have "lookupc (files v) (split_path (fst x)) \<noteq> Some Dir"
       "lookupc (files v) (butlast (split_path (fst x))) = Some Dir"
    by (auto simp: same_dirs_def)
  from with_open_w_succeeds [OF this] obtain v1
    where v1: "with_open_w (fst x) (Inr (snd x)) v = (v1, None)" by blast
  have "same_dirs (files w1) (files v1)"
    using same_dirs_write [OF s1] same_dirs_write [OF v1] Cons.prems(2)
    by (auto simp: same_dirs_def)
  from Cons.IH [OF s2 this] v1 show ?case by (auto simp: seq_def)
qed

lemma writes_idem:
  assumes "writes xs w = (w1, None)"
  shows "\<exists>w2. writes xs w1 = (w2, None) \<and> lookupc (files w2) = lookupc (files w1)"
proof -
  from writes_lookupc [OF assms] have a: "lookupc (files w1) = lookupc (files w) ++ map_of (written xs)"
    and d: "same_dirs (files w) (files w1)" by auto
  from writes_again [OF assms d] obtain w2 where w2: "writes xs w1 = (w2, None)" by blast
  from writes_lookupc [OF w2] have "lookupc (files w2) = lookupc (files w1) ++ map_of (written xs)"
    by simp
  moreover have "(lookupc (files w) ++ map_of (written xs)) ++ map_of (written xs)
                 = lookupc (files w) ++ map_of (written xs)"
    by (auto simp: map_add_def fun_eq_iff split: option.splits)
  ultimately have "lookupc (files w2) = lookupc (files w1)" using a by simp
  with w2 show ?thesis by blast
qed

lemma with_open_w_Inl: "with_open_w p (Inl e) w = (w', err) \<Longrightarrow> err \<noteq> None"
  by (auto simp: with_open_w_unfold Let_def split: sum.splits)

lemma seq_ok:
  "seq f g w = (w', None) \<Longrightarrow> \<exists>w1. f w = (w1, None) \<and> g w1 = (w', None)"
  by (auto simp: seq_def split: prod.splits option.splits)

lemma export_cavity_ok:
  assumes "export_cavity j w = (w', None)"
  shows "\<exists>cav. output_field pdb_kv j = Inr (Some cav)
             \<and> export_cavity j = with_open_w (cavity_fn j) (Inr (Text cav))"
proof (cases "output_field pdb_kv j")
  case (Inl e)
  with assms with_open_w_Inl show ?thesis by (fastforce simp: export_cavity_def)
next
  case (Inr v)
  show ?thesis
  proof (cases v)
    case None
    with Inr assms with_open_w_Inl show ?thesis by (fastforce simp: export_cavity_def)
  next
    case (Some s)
    with Inr show ?thesis by (auto simp: export_cavity_def)
  qed
qed

lemma export_log_ok:
  assumes "export_log j w = (w', None)"
  shows "\<exists>lg. output_field log j = Inr (Some lg)
            \<and> export_log j = with_open_w (log_fn j) (Inr (Text (log_text j lg)))"
proof (cases "output_field log j")
  case (Inl e)
  with assms with_open_w_Inl show ?thesis by (fastforce simp: export_log_def)
next
  case (Inr v)
  show ?thesis
  proof (cases v)
    case None
    with Inr assms with_open_w_Inl show ?thesis by (fastforce simp: export_log_def)
  next
    case (Some s)
    with Inr show ?thesis by (auto simp: export_log_def)
  qed
qed

lemma export_report_ok:
  assumes "export_report L j w = (w', None)"
  shows "\<exists>rep d d'. output_field report j = Inr (Some rep) \<and> toml_loads L rep = Some d
            \<and> merge_report j d = Inr d'
            \<and> export_report L j = with_open_w (report_fn j) (Inr (Text (results_text L d')))"
  using assms
  by (auto simp: export_report_def fun_eq_iff split: sum.splits option.splits)

lemma export_parameters_ok:
  "\<exists>xs. export_parameters L j = writes xs
        \<and> xs = (if id_added_manually j then [] else [(parameter_fn j, Text (parameters_text L j))])"
  by (auto simp: export_parameters_def fun_eq_iff seq_def split: prod.splits option.splits)

lemma mkdir_exist_ok_Inr:
  "mkdir_exist_ok t d = Inr t' \<Longrightarrow> lookupc t' (split_path d) \<noteq> None"
  by (auto simp: mkdir_exist_ok_def os_mkdir_def Let_def lookupc_def put_def
           split: sum.splits if_splits option.splits node.splits)

lemma mkdir_exist_ok_exists:
  "lookupc t (split_path d) \<noteq> None \<Longrightarrow> mkdir_exist_ok t d = Inr t"
  by (simp add: mkdir_exist_ok_def os_mkdir_def Let_def)

lemma writes_Cons: "writes (x # xs) = seq (with_open_w (fst x) (Inr (snd x))) (writes xs)"
  by (simp add: fun_eq_iff)

lemma export_as_writes:
  assumes "export L j w = (w1, None)"
  shows "\<exists>w0 cav rep d d' lg.
             prim (\<lambda>t. mkdir_exist_ok t (base_dir j)) w = (w0, None)
           \<and> output_field pdb_kv j = Inr (Some cav)
           \<and> output_field report j = Inr (Some rep) \<and> toml_loads L rep = Some d
           \<and> merge_report j d = Inr d'
           \<and> output_field log j = Inr (Some lg)
           \<and> writes (exported_files L j cav d' lg) w0 = (w1, None)
           \<and> export L j = seq (prim (\<lambda>t. mkdir_exist_ok t (base_dir j)))
                              (writes (exported_files L j cav d' lg))"
proof -
  from seq_ok [OF assms [unfolded export_def]] obtain w0
    where m: "prim (\<lambda>t. mkdir_exist_ok t (base_dir j)) w = (w0, None)"
      and r0: "seq (export_cavity j) (seq (export_report L j) (seq (export_log j)
                 (export_parameters L j))) w0 = (w1, None)" by blast
  from seq_ok [OF r0] obtain wa where ca: "export_cavity j w0 = (wa, None)"
      and r1: "seq (export_report L j) (seq (export_log j) (export_parameters L j)) wa = (w1, None)"
    by blast
  from seq_ok [OF r1] obtain wb where cb: "export_report L j wa = (wb, None)"
      and r2: "seq (export_log j) (export_parameters L j) wb = (w1, None)" by blast
  from seq_ok [OF r2] obtain wc where cc: "export_log j wb = (wc, None)" by blast
  from export_cavity_ok [OF ca] obtain cav
    where o1: "output_field pdb_kv j = Inr (Some cav)"
      and e1: "export_cavity j = with_open_w (cavity_fn j) (Inr (Text cav))" by blast
  from export_report_ok [OF cb] obtain rep d d'
    where o2: "output_field report j = Inr (Some rep)" "toml_loads L rep = Some d"
        "merge_report j d = Inr d'"
      and e2: "export_report L j = with_open_w (report_fn j) (Inr (Text (results_text L d')))"
    by blast
  from export_log_ok [OF cc] obtain lg
    where o3: "output_field log j = Inr (Some lg)"
      and e3: "export_log j = with_open_w (log_fn j) (Inr (Text (log_text j lg)))" by blast
  from export_parameters_ok obtain ps where e4: "export_parameters L j = writes ps"
    and ps: "ps = (if id_added_manually j then []
                   else [(parameter_fn j, Text (parameters_text L j))])" by blast
  have xs: "exported_files L j cav d' lg
              = (cavity_fn j, Text cav) # (report_fn j, Text (results_text L d'))
                # (log_fn j, Text (log_text j lg)) # ps"
    by (simp add: exported_files_def ps)
  have w: "writes (exported_files L j cav d' lg)
             = seq (export_cavity j) (seq (export_report L j) (seq (export_log j)
                 (export_parameters L j)))"
    by (simp only: xs writes_Cons fst_conv snd_conv e1 e2 e3 e4)
  with r0 have "writes (exported_files L j cav d' lg) w0 = (w1, None)" by simp
  moreover have "export L j = seq (prim (\<lambda>t. mkdir_exist_ok t (base_dir j)))
                                 (writes (exported_files L j cav d' lg))"
    by (simp only: export_def w)
  ultimately show ?thesis using m o1 o2 o3 by blast
qed

lemma writes_defined:
  "writes xs w = (w', None) \<Longrightarrow> lookupc (files w) k \<noteq> None \<Longrightarrow> lookupc (files w') k \<noteq> None"
  using writes_lookupc [of xs w w'] by (auto simp: map_add_def split: option.splits)

lemma splitc_slash: "splitc cur (a @ CHR ''/'' # b) = splitc cur a @ splitc [] b"
  by (induction a arbitrary: cur) auto

lemma splitc_component:
  "CHR ''/'' \<notin> set f \<Longrightarrow> splitc cur f = (if cur @ f = [] then [] else [cur @ f])"
  by (induction f arbitrary: cur) auto

lemmas ev = export_def seq_def prim_def mkdir_exist_ok_def os_mkdir_def lookupc_def lookup_def
  split_path_def join_def put_def export_cavity_def export_report_def export_log_def
  export_parameters_def with_open_w_unfold open_w_def emit_def
  base_dir_def cavity_fn_def results_text_def log_text_def
  report_fn_def log_fn_def parameter_fn_def output_field_def merge_report_def Let_def
  events_since_def

subsection \<open>The files of an export\<close>

lemma splitc_suffix:
  assumes "sfx \<noteq> []" and "CHR ''/'' \<notin> set sfx"
  shows "\<exists>a. splitc cur (y @ sfx) \<noteq> [] \<and> last (splitc cur (y @ sfx)) = a @ sfx"
proof (induction y arbitrary: cur)
  case Nil
  from assms show ?case by (simp add: splitc_component)
next
  case (Cons c y)
  from Cons [of "[]"] Cons [of "cur @ [c]"] show ?case by auto
qed

lemma join_suffix: "\<exists>y. join b (n @ sfx) = y @ sfx"
proof -
  have "join b (n @ sfx) = n @ sfx \<or> join b (n @ sfx) = (b @ n) @ sfx
        \<or> join b (n @ sfx) = (b @ ''/'' @ n) @ sfx"
    by (simp add: join_def)
  then show ?thesis by blast
qed

lemma key_suffix:
  assumes "sfx \<noteq> []" and "CHR ''/'' \<notin> set sfx"
  shows "\<exists>a. last (split_path (join b (n @ sfx))) = a @ sfx"
proof -
  from join_suffix obtain y where "join b (n @ sfx) = y @ sfx" by blast
  with splitc_suffix [OF assms, of "[]" y] show ?thesis by (auto simp: split_path_def)
qed

lemma suffixes_differ:
  "a @ ''.KVFinder.output.pdb'' \<noteq> b @ ''.KVFinder.results.toml''"
  "a @ ''.KVFinder.output.pdb'' \<noteq> b @ ''KVFinder.log''"
  "a @ ''.KVFinder.output.pdb'' \<noteq> b @ ''_parameters.toml''"
  "a @ ''.KVFinder.results.toml'' \<noteq> b @ ''KVFinder.log''"
  "a @ ''.KVFinder.results.toml'' \<noteq> b @ ''_parameters.toml''"
  "a @ ''KVFinder.log'' \<noteq> b @ ''_parameters.toml''"
proof -
  have l: "x \<noteq> y" if "last x \<noteq> last y" for x y :: string using that by auto
  show "a @ ''.KVFinder.output.pdb'' \<noteq> b @ ''.KVFinder.results.toml''" by (rule l) simp
  show "a @ ''.KVFinder.output.pdb'' \<noteq> b @ ''KVFinder.log''" by (rule l) simp
  show "a @ ''.KVFinder.output.pdb'' \<noteq> b @ ''_parameters.toml''" by (rule l) simp
  show "a @ ''.KVFinder.results.toml'' \<noteq> b @ ''KVFinder.log''" by (rule l) simp
  show "a @ ''KVFinder.log'' \<noteq> b @ ''_parameters.toml''" by (rule l) simp
  have t: "x \<noteq> y" if "take 7 (rev x) \<noteq> take 7 (rev y)" for x y :: string using that by auto
  show "a @ ''.KVFinder.results.toml'' \<noteq> b @ ''_parameters.toml''" by (rule t) simp
qed

lemma artifact_keys_distinct:
  "split_path (cavity_fn j) \<noteq> split_path (report_fn j)"
  "split_path (cavity_fn j) \<noteq> split_path (log_fn j)"
  "split_path (cavity_fn j) \<noteq> split_path (parameter_fn j)"
  "split_path (report_fn j) \<noteq> split_path (log_fn j)"
  "split_path (report_fn j) \<noteq> split_path (parameter_fn j)"
  "split_path (log_fn j) \<noteq> split_path (parameter_fn j)"
proof -
  obtain a where a: "last (split_path (cavity_fn j)) = a @ ''.KVFinder.output.pdb''"
    using key_suffix [of "''.KVFinder.output.pdb''" "base_dir j" "base_name j"]
    by (auto simp: cavity_fn_def)
  obtain b where b: "last (split_path (report_fn j)) = b @ ''.KVFinder.results.toml''"
    using key_suffix [of "''.KVFinder.results.toml''" "base_dir j" "base_name j"]
    by (auto simp: report_fn_def)
  obtain c where c: "last (split_path (log_fn j)) = c @ ''KVFinder.log''"
    using key_suffix [of "''KVFinder.log''" "base_dir j" "[]"]
    by (auto simp: log_fn_def)
  obtain d where d: "last (split_path (parameter_fn j)) = d @ ''_parameters.toml''"
    using key_suffix [of "''_parameters.toml''" "base_dir j" "base_name j"]
    by (auto simp: parameter_fn_def base_dir_def)
  show "split_path (cavity_fn j) \<noteq> split_path (report_fn j)"
    using a b suffixes_differ(1) [of a b] by auto
  show "split_path (cavity_fn j) \<noteq> split_path (log_fn j)"
    using a c suffixes_differ(2) [of a c] by auto
  show "split_path (cavity_fn j) \<noteq> split_path (parameter_fn j)"
    using a d suffixes_differ(3) [of a d] by auto
  show "split_path (report_fn j) \<noteq> split_path (log_fn j)"
    using b c suffixes_differ(4) [of b c] by auto
  show "split_path (report_fn j) \<noteq> split_path (parameter_fn j)"
    using b d suffixes_differ(5) [of b d] by auto
  show "split_path (log_fn j) \<noteq> split_path (parameter_fn j)"
    using c d suffixes_differ(6) [of c d] by auto
qed

lemma written_lookup:
  assumes "distinct (map (\<lambda>x. split_path (fst x)) xs)" and "(p, c) \<in> set xs"
  shows "map_of (written xs) (split_path p) = Some (File c)"
proof -
  have "distinct (map fst (written xs))"
    using assms(1) by (simp add: written_def distinct_rev rev_map [symmetric] comp_def)
  moreover have "(split_path p, File c) \<in> set (written xs)"
    using assms(2) by (force simp: written_def)
  ultimately show ?thesis by (rule map_of_is_SomeI)
qed

lemma exported_files_distinct:
  "distinct (map (\<lambda>x. split_path (fst x)) (exported_files L j cav rep lg))"
  using artifact_keys_distinct [of j] by (auto simp: exported_files_def)

lemma writes_hold:
  assumes "writes xs w = (w', None)" and "distinct (map (\<lambda>x. split_path (fst x)) xs)"
    and "(p, c) \<in> set xs"
  shows "lookup (files w') p = Some (File c)"
  using writes_lookupc [OF assms(1)] written_lookup [OF assms(2,3)]
  by (simp add: lookup_def map_add_def)

text \<open>
  C4. An export that has run to its end has written the cavity file, the results file
  and the log file, and the parameters file when the job was not added manually, each
  with the content that the job and its output determine. Run again from the world it
  left, it runs to its end again and every path then holds what it held after the first
  run: the three or four files are rewritten with the same contents.
\<close>

theorem export_idempotent:
  assumes "export L j w = (w1, None)"
  shows "\<exists>cav rep d d' lg.
           output_field pdb_kv j = Inr (Some cav)
         \<and> output_field report j = Inr (Some rep) \<and> toml_loads L rep = Some d
         \<and> merge_report j d = Inr d'
         \<and> output_field log j = Inr (Some lg)
         \<and> lookup (files w1) (cavity_fn j) = Some (File (Text cav))
         \<and> lookup (files w1) (report_fn j) = Some (File (Text (results_text L d')))
         \<and> lookup (files w1) (log_fn j) = Some (File (Text (log_text j lg)))
         \<and> (\<not> id_added_manually j \<longrightarrow>
              lookup (files w1) (parameter_fn j) = Some (File (Text (parameters_text L j))))
         \<and> (\<exists>w2. export L j w1 = (w2, None)
               \<and> (\<forall>p. lookup (files w2) p = lookup (files w1) p))"
proof -
  from export_as_writes [OF assms] obtain w0 cav rep d d' lg
    where m: "prim (\<lambda>t. mkdir_exist_ok t (base_dir j)) w = (w0, None)"
      and o: "output_field pdb_kv j = Inr (Some cav)" "output_field report j = Inr (Some rep)"
        "toml_loads L rep = Some d" "merge_report j d = Inr d'"
        "output_field log j = Inr (Some lg)"
      and ws: "writes (exported_files L j cav d' lg) w0 = (w1, None)"
      and ex: "export L j = seq (prim (\<lambda>t. mkdir_exist_ok t (base_dir j)))
                               (writes (exported_files L j cav d' lg))"
    by blast
  note h = writes_hold [OF ws exported_files_distinct]
  have f1: "lookup (files w1) (cavity_fn j) = Some (File (Text cav))"
    by (rule h) (simp add: exported_files_def)
  have f2: "lookup (files w1) (report_fn j) = Some (File (Text (results_text L d')))"
    by (rule h) (simp add: exported_files_def)
  have f3: "lookup (files w1) (log_fn j) = Some (File (Text (log_text j lg)))"
    by (rule h) (simp add: exported_files_def)
  have f4: "lookup (files w1) (parameter_fn j) = Some (File (Text (parameters_text L j)))"
    if "\<not> id_added_manually j"
    by (rule h) (simp add: exported_files_def that)
  from m have "lookupc (files w0) (split_path (base_dir j)) \<noteq> None"
    by (auto simp: prim_def split: sum.splits dest: mkdir_exist_ok_Inr)
  from writes_defined [OF ws this] have "mkdir_exist_ok (files w1) (base_dir j) = Inr (files w1)"
    by (rule mkdir_exist_ok_exists)
  then have m1: "prim (\<lambda>t. mkdir_exist_ok t (base_dir j)) w1 = (w1, None)"
    by (simp add: prim_def)
  from writes_idem [OF ws] obtain w2 where w2: "writes (exported_files L j cav d' lg) w1 = (w2, None)"
    and eq: "lookupc (files w2) = lookupc (files w1)" by blast
  from m1 w2 have "export L j w1 = (w2, None)" by (simp add: ex seq_def)
  with eq have "\<exists>w2. export L j w1 = (w2, None)
               \<and> (\<forall>p. lookup (files w2) p = lookup (files w1) p)"
    by (auto simp: lookup_def)
  with o f1 f2 f3 f4 show ?thesis by blast
qed

theorem export_idempotent_witness:
  "snd (export lib0 jx wx) = None
   \<and> lookup (files (fst (export lib0 jx wx))) (cavity_fn jx) = Some (File (Text ''ATOM''))
   \<and> lookup (files (fst (export lib0 jx wx))) (log_fn jx) = Some (File (Text (''ok'' @ nl)))
   \<and> lookup (files (fst (export lib0 jx wx))) (report_fn jx)
       = Some (File (Text (results_text lib0
                 [(''FILES_PATH'', TTable [(''INPUT'', TNone), (''LIGAND'', TNone),
                                            (''OUTPUT'', TStr (cavity_fn jx))])])))
   \<and> lookup (files (fst (export lib0 jx wx))) (parameter_fn jx)
       = Some (File (Text (parameters_text lib0 jx)))
   \<and> (\<exists>w2. export lib0 jx (fst (export lib0 jx wx)) = (w2, None)
            \<and> (\<forall>p. lookup (files w2) p = lookup (files (fst (export lib0 jx wx))) p))"
proof -
  have a0: "snd (export lib0 jx wx) = None"
    by (simp add: ev jx_def jm_def wx_def lib0_def reply0_def)
  then have a: "export lib0 jx wx = (fst (export lib0 jx wx), None)"
    by (metis prod.collapse)
  have n: "\<not> id_added_manually jx" by (simp add: jx_def jm_def)
  from export_idempotent [OF a] obtain cav rep d d' lg where
      o: "output_field pdb_kv jx = Inr (Some cav)" "output_field report jx = Inr (Some rep)"
         "toml_loads lib0 rep = Some d" "merge_report jx d = Inr d'"
         "output_field log jx = Inr (Some lg)"
    and f: "lookup (files (fst (export lib0 jx wx))) (cavity_fn jx) = Some (File (Text cav))"
      "lookup (files (fst (export lib0 jx wx))) (report_fn jx) = Some (File (Text (results_text lib0 d')))"
      "lookup (files (fst (export lib0 jx wx))) (log_fn jx) = Some (File (Text (log_text jx lg)))"
      "\<not> id_added_manually jx \<longrightarrow> lookup (files (fst (export lib0 jx wx))) (parameter_fn jx)
          = Some (File (Text (parameters_text lib0 jx)))"
    and r: "\<exists>w2. export lib0 jx (fst (export lib0 jx wx)) = (w2, None)
            \<and> (\<forall>p. lookup (files w2) p = lookup (files (fst (export lib0 jx wx))) p)"
    by blast
  from o(1) have cav: "cav = ''ATOM''" by (simp add: output_field_def jx_def jm_def reply0_def)
  from o(5) have lg: "lg = ''ok''" by (simp add: output_field_def jx_def jm_def reply0_def)
  from o(2) have rep: "rep = ''[FILES_PATH]''"
    by (simp add: output_field_def jx_def jm_def reply0_def)
  with o(3) have d: "d = [(''FILES_PATH'', TTable [])]" by (simp add: lib0_def)
  with o(4) have d': "d' = [(''FILES_PATH'', TTable [(''INPUT'', TNone), (''LIGAND'', TNone),
                                            (''OUTPUT'', TStr (cavity_fn jx))])]"
    by (simp add: merge_report_def opt_toml_def jx_def jm_def)
  have lt: "log_text jx ''ok'' = ''ok'' @ nl" by (simp add: log_text_def log_line_def)
  from a0 f r n show ?thesis by (simp add: cav lg d' lt)
qed

subsection \<open>Files opened by export\<close>

lemma only_events_seq:
  assumes "only_events f A" and "only_events g B"
  shows "only_events (seq f g) (A \<union> B)"
  unfolding only_events_def
proof (intro allI impI)
  fix w w' e
  assume r: "seq f g w = (w', e)"
  obtain w1 e1 where f: "f w = (w1, e1)" by (cases "f w")
  from assms(1) f obtain evs1 where t1: "trace w1 = trace w @ evs1" "set evs1 \<subseteq> A"
    unfolding only_events_def by blast
  show "\<exists>evs. trace w' = trace w @ evs \<and> set evs \<subseteq> A \<union> B"
  proof (cases e1)
    case (Some x)
    with r f have "w' = w1" by (simp add: seq_def)
    with t1 show ?thesis by auto
  next
    case None
    with r f have "g w1 = (w', e)" by (simp add: seq_def)
    with assms(2) obtain evs2 where "trace w' = trace w1 @ evs2" "set evs2 \<subseteq> B"
      unfolding only_events_def by blast
    with t1 have "trace w' = trace w @ (evs1 @ evs2) \<and> set (evs1 @ evs2) \<subseteq> A \<union> B" by auto
    then show ?thesis by blast
  qed
qed

lemma only_events_mono: "only_events f A \<Longrightarrow> A \<subseteq> B \<Longrightarrow> only_events f B"
  unfolding only_events_def by blast

lemma only_events_with_open_w: "only_events (with_open_w p body) {Opened p}"
  unfolding only_events_def
  by (auto simp: with_open_w_unfold Let_def emit_def split: sum.splits)

lemma only_events_prim: "only_events (prim f) {}"
  unfolding only_events_def by (auto simp: prim_def split: sum.splits)

lemma only_events_export_report: "only_events (export_report L j) {Opened (report_fn j)}"
proof -
  have "\<exists>evs. trace w' = trace w @ evs \<and> set evs \<subseteq> {Opened (report_fn j)}"
    if r: "export_report L j w = (w', e)" for w w' e
  proof -
    have "(\<exists>e'. export_report L j w = (w, e'))
          \<or> (\<exists>body. export_report L j w = with_open_w (report_fn j) body w)"
      by (auto simp: export_report_def split: sum.splits option.splits)
    then show ?thesis
    proof
      assume "\<exists>e'. export_report L j w = (w, e')"
      with r have "w' = w" by auto
      then show ?thesis by simp
    next
      assume "\<exists>body. export_report L j w = with_open_w (report_fn j) body w"
      then obtain body where "with_open_w (report_fn j) body w = (w', e)" using r by auto
      with only_events_with_open_w [of "report_fn j" body] show ?thesis
        unfolding only_events_def by blast
    qed
  qed
  then show ?thesis unfolding only_events_def by blast
qed

lemma only_events_export:
  "only_events (export L j)
     ({Opened (cavity_fn j), Opened (report_fn j), Opened (log_fn j)}
      \<union> (if id_added_manually j then {} else {Opened (parameter_fn j)}))"
proof -
  have p: "only_events (export_parameters L j)
             (if id_added_manually j then {} else {Opened (parameter_fn j)})"
  proof (cases "id_added_manually j")
    case True
    then have "export_parameters L j = (\<lambda>w. (w, None))"
      by (simp add: export_parameters_def fun_eq_iff)
    with True show ?thesis by (simp add: only_events_def)
  next
    case False
    then have "export_parameters L j
                = with_open_w (parameter_fn j) (Inr (Text (parameters_text L j)))"
      by (simp add: export_parameters_def fun_eq_iff)
    with False only_events_with_open_w show ?thesis by simp
  qed
  have c: "only_events (export_cavity j) {Opened (cavity_fn j)}"
    unfolding export_cavity_def by (rule only_events_with_open_w)
  have l: "only_events (export_log j) {Opened (log_fn j)}"
    unfolding export_log_def by (rule only_events_with_open_w)
  show ?thesis
    unfolding export_def
    by (rule only_events_mono
          [OF only_events_seq [OF only_events_prim only_events_seq [OF c only_events_seq
                [OF only_events_export_report only_events_seq [OF l p]]]]]) auto
qed

lemma last_join: "x \<noteq> [] \<Longrightarrow> last (join b x) = last x"
  by (simp add: join_def)

lemma join_same_base:
  assumes "join b (n @ x) = join b (n @ y)" and "x \<noteq> []" and "y \<noteq> []"
    and "hd x \<noteq> CHR ''/''" and "hd y \<noteq> CHR ''/''"
  shows "x = y"
proof (cases n)
  case Nil
  with assms show ?thesis by (auto simp: join_def split: if_splits)
next
  case (Cons c cs)
  with assms show ?thesis by (auto simp: join_def split: if_splits)
qed

lemma parameter_fn_distinct:
  "parameter_fn j \<noteq> cavity_fn j" "parameter_fn j \<noteq> report_fn j" "parameter_fn j \<noteq> log_fn j"
proof -
  show "parameter_fn j \<noteq> cavity_fn j"
    using join_same_base [of "base_dir j" "base_name j" "''_parameters.toml''" "''.KVFinder.output.pdb''"]
    by (auto simp: parameter_fn_def cavity_fn_def base_dir_def)
  show "parameter_fn j \<noteq> report_fn j"
    using join_same_base [of "base_dir j" "base_name j" "''_parameters.toml''" "''.KVFinder.results.toml''"]
    by (auto simp: parameter_fn_def report_fn_def base_dir_def)
  have "last (parameter_fn j) = CHR ''l''" "last (log_fn j) = CHR ''g''"
    by (simp_all add: parameter_fn_def log_fn_def last_join)
  then show "parameter_fn j \<noteq> log_fn j" by auto
qed

lemma writes_trace:
  "writes xs w = (w', None) \<Longrightarrow> trace w' = trace w @ map (\<lambda>x. Opened (fst x)) xs"
proof (induction xs arbitrary: w)
  case Nil
  then show ?case by simp
next
  case (Cons x xs)
  from seq_ok [OF Cons.prems [unfolded writes.simps]] obtain w1
    where a: "with_open_w (fst x) (Inr (snd x)) w = (w1, None)" and b: "writes xs w1 = (w', None)"
    by blast
  from with_open_w_ok(5) [OF a] Cons.IH [OF b] show ?case by simp
qed

text \<open>
  C9. Export of a job added manually never opens the parameters file for writing,
  whatever its output is and whether or not the export runs to its end; an export that
  runs to its end has opened the parameters file exactly when the job was not added
  manually.
\<close>

theorem export_parameters_file:
  assumes "export L j w = (w', err)"
  shows "(id_added_manually j \<longrightarrow> Opened (parameter_fn j) \<notin> set (events_since w w'))
       \<and> (err = None \<longrightarrow>
            (Opened (parameter_fn j) \<in> set (events_since w w')) = (\<not> id_added_manually j))"
proof -
  from only_events_export assms obtain evs where evs: "trace w' = trace w @ evs"
    and sub: "set evs \<subseteq> {Opened (cavity_fn j), Opened (report_fn j), Opened (log_fn j)}
                        \<union> (if id_added_manually j then {} else {Opened (parameter_fn j)})"
    unfolding only_events_def by blast
  have es: "events_since w w' = evs" by (simp add: events_since_def evs)
  have manual: "Opened (parameter_fn j) \<notin> set evs" if "id_added_manually j"
    using sub that parameter_fn_distinct [of j] by auto
  have "Opened (parameter_fn j) \<in> set evs" if ok: "err = None" and nm: "\<not> id_added_manually j"
  proof -
    from export_as_writes assms ok obtain w0 cav d' lg
      where m: "prim (\<lambda>t. mkdir_exist_ok t (base_dir j)) w = (w0, None)"
        and ws: "writes (exported_files L j cav d' lg) w0 = (w', None)"
      by blast
    from m have "trace w0 = trace w" by (auto simp: prim_def split: sum.splits)
    with writes_trace [OF ws] evs
    have "evs = map (\<lambda>x. Opened (fst x)) (exported_files L j cav d' lg)" by simp
    with nm show ?thesis by (simp add: exported_files_def)
  qed
  with manual es show ?thesis by auto
qed

theorem export_parameters_file_witness:
  "id_added_manually jm2 \<and> snd (export lib0 jm2 wx) = None
   \<and> Opened (parameter_fn jm2) \<notin> set (events_since wx (fst (export lib0 jm2 wx)))"
proof -
  have m: "id_added_manually jm2" by (simp add: jm2_def jm_def)
  have a0: "snd (export lib0 jm2 wx) = None"
    by (simp add: ev jm2_def jm_def wx_def lib0_def reply0_def)
  then have a: "export lib0 jm2 wx = (fst (export lib0 jm2 wx), None)"
    by (metis prod.collapse)
  from export_parameters_file [OF a] m a0 show ?thesis by blast
qed

subsection \<open>The check for results on disk\<close>

text \<open>
  For a job added manually the check is the test of the three result files and of
  \<open>os.path.exists(True)\<close>, which asks whether descriptor 1 (the standard output) is
  open; the path of the parameters file is not built.
\<close>

lemma check_output_exists_manual:
  assumes "id_added_manually j"
  shows "check_output_exists s j \<longleftrightarrow>
           lookup (files s) (join (join (output_directory j) (job_id j)) ''KVFinder.log'') \<noteq> None
         \<and> lookup (files s) (join (join (output_directory j) (job_id j))
              (base_name j @ ''.KVFinder.results.toml'')) \<noteq> None
         \<and> lookup (files s) (join (join (output_directory j) (job_id j))
              (base_name j @ ''.KVFinder.output.pdb'')) \<noteq> None
         \<and> 1 \<in> set (open_fds s)"
  using assms by (auto simp: check_output_exists_def Let_def)

text \<open>
  C10 fails where the standard output is closed: for a completed job added manually
  whose log, results and cavity files are on disk, the check answers true with
  descriptor 1 open and false with descriptor 1 closed, although the code means the
  fourth test to be true for such a job.
\<close>

theorem check_output_exists_stdout_closed:
  "id_added_manually jm
   \<and> lookup (files wm_closed) (log_fn jm) \<noteq> None
   \<and> lookup (files wm_closed) (report_fn jm) \<noteq> None
   \<and> lookup (files wm_closed) (cavity_fn jm) \<noteq> None
   \<and> files wm_closed = files wm
   \<and> check_output_exists wm jm
   \<and> \<not> check_output_exists wm_closed jm"
  by (simp add: check_output_exists_def jm_def wm_def wm_closed_def join_def lookup_def
        lookupc_def split_path_def log_fn_def report_fn_def cavity_fn_def base_dir_def)

subsection \<open>Saving and loading a record\<close>

lemmas sv = save_def save_begin_def record_content_def plain_record_def plain_def job_file_def
  job_dir_def seq_def prim_def mkdir_exist_ok_def os_mkdir_def lookupc_def lookup_def
  split_path_def join_def put_def open_file_def close_file_def open_w_def emit_def Let_def

lemmas ld = load_def toml_load_def read_file_def fix_name_def basename_def treat_manual_def
  upload_def save_structure_def add_pdb_def structure_path_def get_settings_def entry_get_def
  save_doc_def dumped_def opt_entry_def

lemma save_as_with_open_w:
  "save h L j i
     = seq (prim (\<lambda>t. mkdir_exist_ok t (job_dir h i)))
           (with_open_w (job_file h i) (Inr (record_content L j)))"
  by (auto simp: save_def save_begin_def with_open_w_def seq_def fun_eq_iff
           split: prod.splits option.splits)

lemma save_holds_record:
  assumes "save h L j i w = (w', None)"
  shows "lookup (files w') (job_file h i) = Some (File (record_content L j))"
proof -
  from seq_ok [OF assms [unfolded save_as_with_open_w]] obtain w1
    where "with_open_w (job_file h i) (Inr (record_content L j)) w1 = (w', None)" by blast
  from with_open_w_ok(4) [OF this] show ?thesis by (simp add: lookup_def)
qed

text \<open>
  C6 (as the code has it). The record file is overwritten in place. A save that returns
  has first run the statements up to the opening of the file under its final name,
  which leave that file empty, and then written the record and closed the file; only
  in the world it returns does the file hold the record.
\<close>

theorem save_is_in_place:
  assumes "save h L j i w = (w', None)"
  shows "\<exists>w0. save_begin h i w = (w0, None)
          \<and> lookup (files w0) (job_file h i) = Some (File (Text []))
          \<and> close_file (job_file h i) (record_content L j) w0 = (w', None)
          \<and> lookup (files w') (job_file h i) = Some (File (record_content L j))"
proof -
  from seq_ok [OF assms [unfolded save_def]] obtain w0
    where b: "save_begin h i w = (w0, None)"
      and c: "close_file (job_file h i) (record_content L j) w0 = (w', None)" by blast
  from seq_ok [OF b [unfolded save_begin_def]] obtain w1
    where "open_file (job_file h i) w1 = (w0, None)" by blast
  then obtain t where t: "open_w (files w1) (job_file h i) = Inr t" and f: "files w0 = t"
    by (auto simp: open_file_def emit_def split: sum.splits)
  from open_w_Inr(1,2) [OF t] f
  have "lookup (files w0) (job_file h i) = Some (File (Text []))"
    by (simp add: lookup_def lookupc_put)
  with b c save_holds_record [OF assms] show ?thesis by blast
qed

theorem save_is_in_place_witness:
  "snd (save ''/home'' lib0 jq ''A'' wp) = None
   \<and> snd (save_begin ''/home'' ''A'' wp) = None
   \<and> lookup (files (fst (save_begin ''/home'' ''A'' wp))) (job_file ''/home'' ''A'')
       = Some (File (Text []))
   \<and> lookup (files (fst (save ''/home'' lib0 jq ''A'' wp))) (job_file ''/home'' ''A'')
       = Some (File (JobToml (save_doc jq)))"
proof -
  have a0: "snd (save ''/home'' lib0 jq ''A'' wp) = None" by code_simp
  then have a: "save ''/home'' lib0 jq ''A'' wp = (fst (save ''/home'' lib0 jq ''A'' wp), None)"
    by (metis prod.collapse)
  have p: "record_content lib0 jq = JobToml (save_doc jq)" by code_simp
  from save_is_in_place [OF a] a0 show ?thesis by (auto simp: p)
qed

text \<open>
  C6, as stated, fails: with the complete record of a job on disk, the next save of that
  job, once it has opened the file, has an empty file under the same name, and holds
  the record only when it closes the file.
\<close>

theorem save_truncates_record:
  "lookup (files wq) (job_file ''/home'' ''A'') = Some (File (JobToml (save_doc jq)))
   \<and> snd (save_begin ''/home'' ''A'' wq) = None
   \<and> lookup (files (fst (save_begin ''/home'' ''A'' wq))) (job_file ''/home'' ''A'')
       = Some (File (Text []))
   \<and> save ''/home'' lib0 (jq\<lparr>status := ''running''\<rparr>) ''A'' wq
       = close_file (job_file ''/home'' ''A'')
           (JobToml (save_doc (jq\<lparr>status := ''running''\<rparr>)))
           (fst (save_begin ''/home'' ''A'' wq))"
  by code_simp

subsection \<open>Loading what was saved\<close>

lemma structure_reloaded:
  assumes "structure_ok (files w) out p"
  shows "\<exists>e c. fix_name (opt_entry p) = Inr e \<and> structure_path out e = p
               \<and> save_structure pm out e w = (w, None) \<and> add_pdb (files w) p = Inr c"
proof (cases p)
  case None
  then show ?thesis
    by (simp add: fix_name_def opt_entry_def structure_path_def save_structure_def add_pdb_def)
next
  case (Some q)
  with assms obtain c where q: "join out (remove_all ''.pdb'' (basename q) @ ''.pdb'') = q"
    and c: "lookup (files w) q = Some (File c)" by (auto simp: structure_ok_def)
  show ?thesis
    using Some q c
    by (simp add: fix_name_def opt_entry_def structure_path_def save_structure_def add_pdb_def
          read_file_def)
qed

lemma settings_reloaded:
  assumes "settings_ok j" and "p_id_added_manually d = p_id_added_manually (save_doc j)"
    and "p_modes d = p_modes (save_doc j)" and "p_step_size d = p_step_size (save_doc j)"
    and "p_probes d = p_probes (save_doc j)" and "p_cutoffs d = p_cutoffs (save_doc j)"
    and "p_visiblebox d = p_visiblebox (save_doc j)"
    and "p_internalbox d = p_internalbox (save_doc j)"
  shows "get_settings (treat_manual d) = Inr (input_settings j)"
proof (cases "id_added_manually j")
  case True
  with assms(1) have "input_settings j = \<lparr>modes = None, step_size = None, probes = None,
      cutoffs = None, visiblebox = None, internalbox = None\<rparr>"
    by (cases "input_settings j") (simp add: settings_ok_def Let_def)
  with True assms(2) show ?thesis
    by (simp add: get_settings_def treat_manual_def entry_get_def save_doc_def)
next
  case False
  with assms(1) obtain a b c e f g where "input_settings j = \<lparr>modes = Some (TTable a),
      step_size = Some (TTable b), probes = Some (TTable c), cutoffs = Some (TTable e),
      visiblebox = Some (TTable f), internalbox = Some (TTable g)\<rparr>"
    and "drop_none (TTable a) = TTable a" and "drop_none (TTable b) = TTable b"
    and "drop_none (TTable c) = TTable c" and "drop_none (TTable e) = TTable e"
    and "drop_none (TTable f) = TTable f" and "drop_none (TTable g) = TTable g"
    by (cases "input_settings j") (auto simp: settings_ok_def Let_def)
  with False assms(2-) show ?thesis
    by (simp add: get_settings_def treat_manual_def entry_get_def save_doc_def dumped_def)
qed

text \<open>
  Where \<open>load\<close> recovers the structure paths and finds their files, it returns a job
  that \<open>save\<close> writes as the same document.
\<close>

lemma save_load_save:
  assumes s: "save h L j i w = (w1, None)" and pl: "plain_record j"
    and p: "structure_ok (files w1) (output_directory j) (pdb j)"
    and l: "structure_ok (files w1) (output_directory j) (ligand j)"
    and st: "settings_ok j"
  shows "\<exists>j'. load L pm (job_file h i) w1 = (w1, Inr j') \<and> save_doc j' = save_doc j"
proof -
  from save_holds_record [OF s] pl
  have rd: "toml_load L (files w1) (job_file h i) = Inr (save_doc j)"
    by (simp add: toml_load_def read_file_def record_content_def)
  from structure_reloaded [OF p, of pm] obtain pe pc
    where pe: "fix_name (p_pdb (save_doc j)) = Inr pe"
      "structure_path (output_directory j) pe = pdb j"
      "save_structure pm (output_directory j) pe w1 = (w1, None)"
      "add_pdb (files w1) (pdb j) = Inr pc"
    by (auto simp: save_doc_def)
  from structure_reloaded [OF l, of pm] obtain le lc
    where le: "fix_name (p_ligand (save_doc j)) = Inr le"
      "structure_path (output_directory j) le = ligand j"
      "save_structure pm (output_directory j) le w1 = (w1, None)"
      "add_pdb (files w1) (ligand j) = Inr lc"
    by (auto simp: save_doc_def)
  let ?d = "(save_doc j)\<lparr>p_pdb := pe, p_ligand := le\<rparr>"
  have gs: "get_settings (treat_manual ?d) = Inr (input_settings j)"
    by (rule settings_reloaded [OF st]) simp_all
  have o: "p_output (treat_manual ?d) = output_directory j"
      "p_base_name (treat_manual ?d) = base_name j" "p_status (treat_manual ?d) = status j"
      "p_pdb (treat_manual ?d) = pe" "p_ligand (treat_manual ?d) = le"
      "(p_id_added_manually (treat_manual ?d) = Val True) = id_added_manually j"
    by (simp_all add: treat_manual_def save_doc_def)
  let ?j' = "\<lparr>status = status j, pdb = pdb j, ligand = ligand j,
              output_directory = output_directory j, base_name = base_name j,
              id_added_manually = id_added_manually j, job_id = [], input_pdb = pc,
              input_pdb_ligand = lc, input_settings = input_settings j, job_output = None\<rparr>"
  have "upload pm (treat_manual ?d) w1 = (w1, Inr ?j')"
    by (simp add: upload_def o pe le gs)
  then have "load L pm (job_file h i) w1 = (w1, Inr ?j')"
    by (simp add: load_def rd pe le)
  moreover have "save_doc ?j' = save_doc j" by (simp add: save_doc_def)
  ultimately show ?thesis by blast
qed

text \<open>
  C5 fails for a job whose structure name contains \<open>.pdb\<close>: \<open>load\<close> removes every
  occurrence of \<open>.pdb\<close> from the file name, not only the extension, so the record saved
  for \<open>/out/a.pdb.pdb\<close> is loaded as \<open>/out/a.pdb\<close>, a file that does not exist, and
  the load of what was just saved raises.
\<close>

theorem save_load_fails:
  "snd (save ''/home'' lib0 jp ''A'' wp) = None
   \<and> snd (load lib0 [] (job_file ''/home'' ''A'') (fst (save ''/home'' lib0 jp ''A'' wp)))
       = Inl FileNotFoundError"
  by code_simp

subsection \<open>The loop over the jobs\<close>

lemma get_results_refused:
  assumes "remote cfg i = ConnectionRefusedError" and "job_info (fst s) = Some j"
  shows "get_results cfg i s = ((fst s, (snd s)\<lparr>trace := trace (snd s) @ [Get i, ServerDown]\<rparr>), None)"
  using assms by (simp add: get_results_def handle_get_response_def signal_def emit_def)

text \<open>
  C8 (as the code has it). When the GET for a job is refused, the worker signals that
  the service is down and does nothing else: its belief that the service is up, the
  wait flag and the files stay as they were, no exception is raised, and the loop goes
  on with the remaining jobs of the pass.
\<close>

theorem connection_refused_goes_on:
  assumes "load (lib cfg) (pymol cfg) (job_file (home cfg) i) (snd s) = (w1, Inr j0)"
    and "remote cfg i = ConnectionRefusedError"
  shows "\<exists>s'. check_job cfg n s i = (s', None)
          \<and> events_since w1 (snd s')
              = (if fetched cfg (fst s) w1 (j0\<lparr>job_id := i\<rparr>) then [Get i, ServerDown] else [])
                @ (if n > 1 then [Sleep time_between_jobs] else [])
          \<and> server_status (fst s') = server_status (fst s)
          \<and> wait (fst s') = wait (fst s)
          \<and> files (snd s') = files w1
          \<and> for_each (check_job cfg n) s (i # rest) = for_each (check_job cfg n) s' rest"
proof -
  let ?j = "j0\<lparr>job_id := i\<rparr>"
  let ?s1 = "((fst s)\<lparr>job_info := Some ?j\<rparr>, w1)"
  have g: "get_results cfg i ?s1 = ((fst ?s1, (snd ?s1)\<lparr>trace := trace (snd ?s1) @ [Get i, ServerDown]\<rparr>), None)"
    by (rule get_results_refused [OF assms(2)]) simp
  define s2 where "s2 = fst (handle_status cfg i ?j ?s1)"
  have h: "handle_status cfg i ?j ?s1 = (s2, None)"
    unfolding s2_def using g by (simp add: handle_status_def check_completed_def)
  have e: "trace (snd s2) = trace w1 @ (if fetched cfg (fst s) w1 ?j then [Get i, ServerDown] else [])"
    unfolding s2_def using g
    by (simp add: handle_status_def check_completed_def fetched_def)
  have k: "server_status (fst s2) = server_status (fst s)" "wait (fst s2) = wait (fst s)"
           "files (snd s2) = files w1"
    unfolding s2_def using g by (simp_all add: handle_status_def check_completed_def)
  let ?s' = "if n > 1 then signal (Sleep time_between_jobs) s2 else s2"
  have c: "check_job cfg n s i = (?s', None)"
    using assms(1) h by (simp add: check_job_def Let_def)
  have "events_since w1 (snd ?s')
          = (if fetched cfg (fst s) w1 ?j then [Get i, ServerDown] else [])
            @ (if n > 1 then [Sleep time_between_jobs] else [])"
    using e by (simp add: events_since_def signal_def emit_def)
  with k c show ?thesis by (auto simp: signal_def emit_def)
qed

theorem connection_refused_goes_on_witness:
  "\<exists>s'. check_job cfg_refused 2 (worker0, store2) ''A'' = (s', None)
      \<and> events_since store2 (snd s') = [Get ''A'', ServerDown, Sleep time_between_jobs]
      \<and> server_status (fst s')"
proof -
  have l: "load (lib cfg_refused) (pymol cfg_refused) (job_file (home cfg_refused) ''A'') (snd (worker0, store2))
            = (store2, Inr (jq\<lparr>job_id := []\<rparr>))"
    by code_simp
  have r: "remote cfg_refused ''A'' = ConnectionRefusedError"
    by (simp add: cfg_refused_def)
  have f: "fetched cfg_refused (fst (worker0, store2)) store2 (jq\<lparr>job_id := [], job_id := ''A''\<rparr>)"
    by (simp add: fetched_def jq_def jp_def)
  have s: "server_status (fst (worker0, store2))" by (simp add: worker0_def)
  from connection_refused_goes_on [OF l r, of 2 "[]"] f s show ?thesis by auto
qed

text \<open>
  C8, as stated, fails: in a pass over the jobs \<open>A\<close> and \<open>B\<close>, both queued, with the GET
  for \<open>A\<close> refused, the worker signals that the service is down and then sends the GET
  for \<open>B\<close>.
\<close>

theorem fetch_after_connection_refused:
  "map_option (\<lambda>r. trace (snd (fst r))) (cycle cfg_refused (worker0, store2))
     = Some [AvailableJobsSignal [''A'', ''B''], Get ''A'', ServerDown, Sleep 2000,
             Get ''B'', Opened ''/home/.KVFinder-web/B/job.toml'', ServerUp,
             Sleep 2000, Sleep 5000]"
  by code_simp

subsection \<open>Waiting for the interactive layer\<close>

lemma wait_loop_clear: "\<not> wait (fst s) \<Longrightarrow> wait_loop s acks = Some (s, acks)"
  by (cases acks) simp_all

text \<open>
  C2 (as the code has it). The flag is read at the top of each iteration of \<open>run\<close>.
  When it is set there, the worker does nothing but wait on its timer until the wait in
  which the flag is cleared has ended: no request is sent, no file is touched, and it
  goes on to discover the jobs at the end of that very wait.
\<close>

theorem wait_loop_sleeps_only:
  assumes "wait (fst s)" and "\<forall>a\<in>set pre. \<not> a"
  shows "wait_loop s (pre @ True # rest)
           = Some (((fst s)\<lparr>wait := False\<rparr>,
                    (snd s)\<lparr>trace := trace (snd s) @ replicate (Suc (length pre)) (Sleep time_wait_status)\<rparr>),
                   rest)"
  using assms
proof (induction pre arbitrary: s)
  case Nil
  then show ?case by (simp add: signal_def emit_def wait_loop_clear)
next
  case (Cons a pre)
  let ?s1 = "signal (Sleep time_wait_status) s"
  from Cons.prems have a: "\<not> a" and p: "\<forall>a\<in>set pre. \<not> a" by auto
  have w1: "wait (fst ?s1)" using Cons.prems(1) by (simp add: signal_def)
  have u: "(fst s)\<lparr>wait := True\<rparr> = fst s"
    using Cons.prems(1) by (cases "fst s") simp
  have "wait_loop s ((a # pre) @ True # rest) = wait_loop ?s1 (pre @ True # rest)"
    using Cons.prems(1) a by (simp add: signal_def u)
  also have "\<dots> = Some (((fst ?s1)\<lparr>wait := False\<rparr>,
                    (snd ?s1)\<lparr>trace := trace (snd ?s1) @ replicate (Suc (length pre)) (Sleep time_wait_status)\<rparr>),
                   rest)"
    by (rule Cons.IH [OF w1 p])
  finally show ?case by (simp add: signal_def emit_def replicate_append_same)
qed

theorem wait_loop_sleeps_only_witness:
  "wait_loop (worker0\<lparr>wait := True\<rparr>, store2) [False, False, True]
     = Some ((worker0, store2\<lparr>trace := [Sleep time_wait_status, Sleep time_wait_status,
                                           Sleep time_wait_status]\<rparr>), [])"
proof -
  have a: "wait (fst (worker0\<lparr>wait := True\<rparr>, store2))" by simp
  have b: "\<forall>a\<in>set [False, False]. \<not> a" by simp
  from wait_loop_sleeps_only [OF a b, of "[]"] show ?thesis
    by (simp add: worker0_def store2_def)
qed

text \<open>
  C2, as stated, fails: the flag set by an expired job \<open>A\<close> is not read again during
  the pass, and the GET for the next job \<open>B\<close> is sent while it is set.
\<close>

theorem fetch_while_waiting:
  "wait (fst (fst (check_job cfg_expired 2 (worker0, store2) ''A'')))
   \<and> Get ''B'' \<in> set (events_since (snd (fst (check_job cfg_expired 2 (worker0, store2) ''A'')))
        (snd (fst (check_job cfg_expired 2
                     (fst (check_job cfg_expired 2 (worker0, store2) ''A'')) ''B''))))"
  by code_simp

subsection \<open>The counter of passes without a check\<close>

lemma get_results_counter:
  "get_results cfg i s = (s', e) \<Longrightarrow> counter (fst s') = counter (fst s) \<and> flag (fst s') = flag (fst s)"
  by (auto simp: get_results_def handle_get_response_def handle_no_error_def handle_not_found_def
        signal_def Let_def split: option.splits net_reply.splits prod.splits sum.splits)

lemma check_job_exact:
  assumes "check_job cfg n s i = (s', None)"
  shows "flag (fst s') = (flag (fst s) \<or> complete_on_disk cfg (snd s) i)"
    and "counter (fst s')
          = (if complete_on_disk cfg (snd s) i \<and> counter (fst s) = times_job_completed_no_checked
             then 0 else counter (fst s))"
proof -
  from assms obtain w1 j0 s2
    where l: "load (lib cfg) (pymol cfg) (job_file (home cfg) i) (snd s) = (w1, Inr j0)"
    and h: "handle_status cfg i (j0\<lparr>job_id := i\<rparr>) ((fst s)\<lparr>job_info := Some (j0\<lparr>job_id := i\<rparr>)\<rparr>, w1) = (s2, None)"
    and s': "s' = (if n > 1 then signal (Sleep time_between_jobs) s2 else s2)"
    by (auto simp: check_job_def Let_def split: prod.splits sum.splits option.splits)
  let ?s1 = "((fst s)\<lparr>job_info := Some (j0\<lparr>job_id := i\<rparr>)\<rparr>, w1)"
  have c: "complete_on_disk cfg (snd s) i
            = (status j0 = ''completed'' \<and> check_output_exists w1 (j0\<lparr>job_id := i\<rparr>))"
    using l by (simp add: complete_on_disk_def)
  have "flag (fst s2) = (flag (fst s) \<or> complete_on_disk cfg (snd s) i)
        \<and> counter (fst s2)
          = (if complete_on_disk cfg (snd s) i \<and> counter (fst s) = times_job_completed_no_checked
             then 0 else counter (fst s))"
    using h get_results_counter [of cfg i ?s1]
    by (auto simp: c handle_status_def check_completed_def split: if_splits prod.splits option.splits)
  with s' show "flag (fst s') = (flag (fst s) \<or> complete_on_disk cfg (snd s) i)"
    and "counter (fst s')
          = (if complete_on_disk cfg (snd s) i \<and> counter (fst s) = times_job_completed_no_checked
             then 0 else counter (fst s))"
    by (auto simp: signal_def)
qed

text \<open>
  A job met completed and with its results on disk is fetched when the counter has
  reached the interval, and is left alone (nothing is sent, no file is touched)
  otherwise.
\<close>

lemma check_job_skips:
  assumes "check_job cfg n s i = (s', None)" and "complete_on_disk cfg (snd s) i"
    and "counter (fst s) \<noteq> times_job_completed_no_checked"
  shows "\<exists>j0. load (lib cfg) (pymol cfg) (job_file (home cfg) i) (snd s)
                = ((if n > 1 then (snd s')\<lparr>trace := butlast (trace (snd s'))\<rparr> else snd s'), Inr j0)"
  using assms
  by (auto simp: check_job_def complete_on_disk_def handle_status_def check_completed_def
        signal_def emit_def Let_def split: prod.splits sum.splits option.splits if_splits)

lemma check_job_forced:
  assumes "check_job cfg n s i = (s', None)" and "complete_on_disk cfg (snd s) i"
    and "counter (fst s) = times_job_completed_no_checked"
  shows "\<exists>w1 j0 s2. load (lib cfg) (pymol cfg) (job_file (home cfg) i) (snd s) = (w1, Inr j0)
           \<and> get_results cfg i ((fst s)\<lparr>job_info := Some (j0\<lparr>job_id := i\<rparr>)\<rparr>, w1) = (s2, None)"
  using assms
  by (auto simp: check_job_def complete_on_disk_def handle_status_def check_completed_def
        Let_def split: prod.splits sum.splits option.splits if_splits)

lemma for_each_exact:
  assumes "for_each (check_job cfg n) s jobs = (s1, None)"
    and "flag (fst s) = b"
    and "counter (fst s) = (if b \<and> c = times_job_completed_no_checked then 0 else c)"
  shows "flag (fst s1) = (b \<or> met_complete cfg n s jobs)
         \<and> counter (fst s1)
            = (if (b \<or> met_complete cfg n s jobs) \<and> c = times_job_completed_no_checked
               then 0 else c)"
  using assms
proof (induction jobs arbitrary: s b)
  case Nil
  then have "s1 = s" by simp
  with Nil.prems(2,3) show ?case by simp
next
  case (Cons i jobs)
  from Cons.prems(1) obtain s2 where a: "check_job cfg n s i = (s2, None)"
    and r: "for_each (check_job cfg n) s2 jobs = (s1, None)"
    by (auto split: prod.splits option.splits)
  let ?b = "b \<or> complete_on_disk cfg (snd s) i"
  have f: "flag (fst s2) = ?b" using check_job_exact(1) [OF a] Cons.prems(2) by simp
  have k: "counter (fst s2) = (if ?b \<and> c = times_job_completed_no_checked then 0 else c)"
    using check_job_exact(2) [OF a] Cons.prems(2,3)
    by (auto simp: times_job_completed_no_checked_def)
  have m: "met_complete cfg n s (i # jobs)
            = (complete_on_disk cfg (snd s) i \<or> met_complete cfg n s2 jobs)"
    using a by simp
  from Cons.IH [OF r f k] show ?case by (auto simp: m simp del: met_complete.simps)
qed

text \<open>
  C3 (as the code has it). After a pass whose loop ran to its end, the counter is what
  it was before the pass when the pass met no completed job with its results on disk;
  when it met one, the counter is one if it had reached the interval before the pass
  (the first such job is then fetched, the counter reset to zero, and the increment at
  the end of the pass applies), and one more than before the pass otherwise.
\<close>

theorem pass_counter:
  assumes "snd (check_jobs cfg jobs s) = None"
  shows "counter (fst (fst (check_jobs cfg jobs s)))
          = (if \<not> met_complete cfg (length jobs) (pass_start s) jobs then counter (fst s)
             else if counter (fst s) = times_job_completed_no_checked then 1
             else counter (fst s) + 1)"
proof -
  from assms obtain s1
    where l: "for_each (check_job cfg (length jobs)) (pass_start s) jobs = (s1, None)"
    by (auto simp: check_jobs_def pass_start_def split: prod.splits option.splits)
  have "flag (fst s1) = (False \<or> met_complete cfg (length jobs) (pass_start s) jobs)
        \<and> counter (fst s1)
           = (if (False \<or> met_complete cfg (length jobs) (pass_start s) jobs)
                   \<and> counter (fst s) = times_job_completed_no_checked
              then 0 else counter (fst s))"
    by (rule for_each_exact [OF l]) (simp_all add: pass_start_def)
  then show ?thesis using l
    by (auto simp: check_jobs_def pass_start_def signal_def Let_def)
qed

text \<open>
  Three passes: the only job is complete on disk and the counter is due (the job is
  fetched, the counter ends at one); the same job with the counter at zero (nothing is
  fetched, the counter ends at one); two queued jobs (both are fetched, the counter
  stays at zero).
\<close>

theorem pass_counter_witness:
  "snd (check_jobs cfg_forced [''A''] (worker_due, store3)) = None
   \<and> met_complete cfg_forced (length [''A'']) (pass_start (worker_due, store3)) [''A'']
   \<and> counter worker_due = times_job_completed_no_checked
   \<and> counter (fst (fst (check_jobs cfg_forced [''A''] (worker_due, store3)))) = 1
   \<and> Get ''A'' \<in> set (trace (snd (fst (check_jobs cfg_forced [''A''] (worker_due, store3)))))
   \<and> snd (check_jobs cfg_forced [''A''] (worker0, store3)) = None
   \<and> met_complete cfg_forced (length [''A'']) (pass_start (worker0, store3)) [''A'']
   \<and> counter worker0 = 0
   \<and> counter (fst (fst (check_jobs cfg_forced [''A''] (worker0, store3)))) = 1
   \<and> Get ''A'' \<notin> set (trace (snd (fst (check_jobs cfg_forced [''A''] (worker0, store3)))))
   \<and> snd (check_jobs cfg_refused [''A'', ''B''] (worker0, store2)) = None
   \<and> \<not> met_complete cfg_refused (length [''A'', ''B'']) (pass_start (worker0, store2)) [''A'', ''B'']
   \<and> counter (fst (fst (check_jobs cfg_refused [''A'', ''B''] (worker0, store2)))) = 0"
proof -
  have a: "snd (check_jobs cfg_forced [''A''] (worker_due, store3)) = None" by code_simp
  have a1: "met_complete cfg_forced (length [''A'']) (pass_start (worker_due, store3)) [''A'']" by code_simp
  have a2: "counter worker_due = times_job_completed_no_checked" by (simp add: worker_due_def)
  have a3: "Get ''A'' \<in> set (trace (snd (fst (check_jobs cfg_forced [''A''] (worker_due, store3)))))"
    by code_simp
  have b: "snd (check_jobs cfg_forced [''A''] (worker0, store3)) = None" by code_simp
  have b1: "met_complete cfg_forced (length [''A'']) (pass_start (worker0, store3)) [''A'']" by code_simp
  have b2: "counter worker0 = 0" by (simp add: worker0_def)
  have b3: "Get ''A'' \<notin> set (trace (snd (fst (check_jobs cfg_forced [''A''] (worker0, store3)))))"
    by code_simp
  have c: "snd (check_jobs cfg_refused [''A'', ''B''] (worker0, store2)) = None" by code_simp
  have c1: "\<not> met_complete cfg_refused (length [''A'', ''B'']) (pass_start (worker0, store2)) [''A'', ''B'']"
    by code_simp
  from pass_counter [OF a] a1 a2
  have ra: "counter (fst (fst (check_jobs cfg_forced [''A''] (worker_due, store3)))) = 1"
    by (simp del: met_complete.simps list.size)
  from pass_counter [OF b] b1 b2
  have rb: "counter (fst (fst (check_jobs cfg_forced [''A''] (worker0, store3)))) = 1"
    by (simp add: times_job_completed_no_checked_def del: met_complete.simps list.size)
  from pass_counter [OF c] c1 b2
  have rc: "counter (fst (fst (check_jobs cfg_refused [''A'', ''B''] (worker0, store2)))) = 0"
    by (simp del: met_complete.simps list.size)
  from a a1 a2 a3 b b1 b2 b3 c c1 ra rb rc show ?thesis
    by (simp del: met_complete.simps list.size)
qed

text \<open>
  C3, as stated, fails: after a pass in which the only job, completed and with its
  results on disk, is fetched because the counter has reached the interval, the counter
  is one, not zero.
\<close>

theorem counter_after_forced_fetch:
  "check_output_exists store3 jm
   \<and> complete_on_disk cfg_forced store3 ''A''
   \<and> counter worker_due = times_job_completed_no_checked
   \<and> map_option (\<lambda>r. (snd r, counter (fst (fst r)), Get ''A'' \<in> set (trace (snd (fst r)))))
        (cycle cfg_forced (worker_due, store3)) = Some (None, 1, True)"
  by code_simp

subsection \<open>Erasing a directory\<close>

lemma split_path_slash: "split_path (a @ ''/'') = split_path a"
  using splitc_slash [of "[]" a "[]"] by (simp add: split_path_def)

lemma split_path_join:
  assumes "component f"
  shows "split_path (join d f) = split_path d @ [f]"
proof -
  from assms have f: "f \<noteq> []" "CHR ''/'' \<notin> set f" "hd f \<noteq> CHR ''/''"
    by (auto simp: component_def) (metis hd_in_set)
  have sf: "splitc [] f = [f]" using f by (simp add: splitc_component)
  show ?thesis
  proof (cases "d = []")
    case True
    with f sf show ?thesis by (simp add: join_def split_path_def)
  next
    case False
    show ?thesis
    proof (cases "last d = CHR ''/''")
      case True
      with False obtain d' where d: "d = d' @ ''/''"
        by (metis append_butlast_last_id)
      have "split_path (join d f) = splitc [] (d' @ CHR ''/'' # f)"
        using f d by (simp add: join_def split_path_def)
      also have "\<dots> = splitc [] d' @ [f]" by (simp add: splitc_slash sf)
      also have "splitc [] d' = split_path d"
        using split_path_slash [of d'] d by (simp add: split_path_def)
      finally show ?thesis .
    next
      case l: False
      have "split_path (join d f) = splitc [] (d @ CHR ''/'' # f)"
        using f False l by (simp add: join_def split_path_def)
      then show ?thesis by (simp add: splitc_slash sf split_path_def)
    qed
  qed
qed

lemma map_of_filter_pred:
  "map_of (filter (\<lambda>e. P (fst e)) t) k = (if P k then map_of t k else None)"
  by (induction t) auto

lemma lookupc_rm_tree:
  "k \<noteq> [] \<Longrightarrow> lookupc (rm_tree t k) k' = (if prefix k k' then None else lookupc t k')"
  using map_of_filter_pred [of "\<lambda>k'. \<not> prefix k k'" t k']
  by (auto simp: lookupc_def rm_tree_def)

lemma key_lookupc: "k \<in> fst ` set t \<Longrightarrow> lookupc t k \<noteq> None"
  by (cases "map_of t k") (auto simp: lookupc_def map_of_eq_None_iff)

lemma lookupc_key: "lookupc t k = Some n \<Longrightarrow> k \<noteq> [] \<Longrightarrow> k \<in> fst ` set t"
  by (auto simp: lookupc_def dest: map_of_SomeD intro: rev_image_eqI)

lemma well_formed_rm_tree:
  assumes "well_formed t" and "k \<noteq> []"
  shows "well_formed (rm_tree t k)"
  unfolding well_formed_def
proof
  fix k' assume k': "k' \<in> fst ` set (rm_tree t k)"
  then have in_t: "k' \<in> fst ` set t" and np: "\<not> prefix k k'" by (auto simp: rm_tree_def)
  from assms(1) in_t have a: "k' \<noteq> []" "\<forall>c\<in>set k'. component c" "lookupc t (butlast k') = Some Dir"
    by (auto simp: well_formed_def)
  have "\<not> prefix k (butlast k')"
    using np a(1) by (metis append_butlast_last_id prefix_order.trans prefixI)
  with a assms(2) show "k' \<noteq> [] \<and> (\<forall>c\<in>set k'. component c) \<and> lookupc (rm_tree t k) (butlast k') = Some Dir"
    by (simp add: lookupc_rm_tree)
qed

lemma shallow_rm_tree: "shallow t k n \<Longrightarrow> shallow (rm_tree t k') k n"
  by (auto simp: shallow_def rm_tree_def)

text \<open>In a well-formed tree every non-empty prefix of a key is a key.\<close>

lemma prefix_is_key:
  assumes "well_formed t"
  shows "k @ ext \<in> fst ` set t \<Longrightarrow> k \<noteq> [] \<Longrightarrow> k \<in> fst ` set t \<and> (ext \<noteq> [] \<longrightarrow> lookupc t k = Some Dir)"
proof (induction ext rule: rev_induct)
  case Nil
  then show ?case by simp
next
  case (snoc x ext)
  from assms snoc.prems(1) have "lookupc t (butlast (k @ ext @ [x])) = Some Dir"
    by (auto simp: well_formed_def)
  then have d: "lookupc t (k @ ext) = Some Dir" by (simp add: butlast_append)
  with snoc.prems(2) have "k @ ext \<in> fst ` set t" by (auto intro: lookupc_key)
  from snoc.IH [OF this snoc.prems(2)] d show ?case by (cases ext) auto
qed

lemma nothing_below_a_file:
  assumes "well_formed t" and "lookupc t k = Some (File c)"
  shows "rm_tree t k = del t k"
proof -
  from assms(2) have ne: "k \<noteq> []" by (auto simp: lookupc_def split: if_splits)
  have "prefix k (fst e) \<longleftrightarrow> fst e = k" if "e \<in> set t" for e
  proof
    assume "prefix k (fst e)"
    then obtain ext where e: "fst e = k @ ext" by (auto simp: prefix_def)
    with that have "k @ ext \<in> fst ` set t" by (metis image_eqI)
    from prefix_is_key [OF assms(1) this ne] assms(2) have "ext = []" by auto
    with e show "fst e = k" by simp
  qed simp
  then show ?thesis by (auto simp: rm_tree_def del_def intro: filter_cong)
qed

lemma shallow_child: "shallow t k (Suc m) \<Longrightarrow> shallow t (k @ [f]) m"
  unfolding shallow_def
proof
  fix k' assume a: "\<forall>k'\<in>fst ` set t. prefix k k' \<longrightarrow> length k' < length k + Suc m"
    and k': "k' \<in> fst ` set t"
  show "prefix (k @ [f]) k' \<longrightarrow> length k' < length (k @ [f]) + m"
  proof
    assume "prefix (k @ [f]) k'"
    then have "prefix k k'" by (metis prefix_order.trans prefixI)
    with a k' show "length k' < length (k @ [f]) + m" by auto
  qed
qed

lemma erase_loop:
  assumes IH: "\<And>t d. well_formed t \<Longrightarrow> lookupc t (split_path d) = Some Dir \<Longrightarrow> split_path d \<noteq> []
                 \<Longrightarrow> shallow t (split_path d) m
                 \<Longrightarrow> erase_job_dir m t d = (rm_tree t (split_path d), None)"
  shows "well_formed t \<Longrightarrow> shallow t (split_path d) (Suc m) \<Longrightarrow> distinct ns
         \<Longrightarrow> \<forall>f\<in>set ns. split_path d @ [f] \<in> fst ` set t
         \<Longrightarrow> for_each (\<lambda>t' f. if isdir t' (join d f) then erase_job_dir m t' (join d f)
                                else keep t' (os_remove t' (join d f))) t ns
             = (filter (\<lambda>e. \<not> (\<exists>f\<in>set ns. prefix (split_path d @ [f]) (fst e))) t, None)"
proof (induction ns arbitrary: t)
  case Nil
  then show ?case by simp
next
  case (Cons f ns)
  let ?kd = "split_path d"
  let ?k = "?kd @ [f]"
  let ?t2 = "rm_tree t ?k"
  from Cons.prems have key: "?k \<in> fst ` set t" by simp
  with Cons.prems(1) have "component f" by (auto simp: well_formed_def)
  then have sp: "split_path (join d f) = ?k" by (rule split_path_join)
  have step: "(if isdir t (join d f) then erase_job_dir m t (join d f)
               else keep t (os_remove t (join d f))) = (?t2, None)"
  proof (cases "isdir t (join d f)")
    case True
    then have "lookupc t (split_path (join d f)) = Some Dir" by (simp add: isdir_def lookup_def)
    moreover have "shallow t (split_path (join d f)) m"
      using shallow_child [OF Cons.prems(2)] sp by simp
    ultimately have "erase_job_dir m t (join d f) = (rm_tree t (split_path (join d f)), None)"
      using Cons.prems(1) sp by (intro IH) auto
    with True sp show ?thesis by simp
  next
    case False
    from key_lookupc [OF key] False sp obtain c where c: "lookupc t ?k = Some (File c)"
      by (cases "lookupc t ?k") (auto simp: isdir_def lookup_def, metis node.exhaust)
    then have "os_remove t (join d f) = Inr (del t ?k)" by (simp add: os_remove_def sp)
    with False nothing_below_a_file [OF Cons.prems(1) c] show ?thesis by (simp add: keep_def)
  qed
  have wf2: "well_formed ?t2" by (rule well_formed_rm_tree [OF Cons.prems(1)]) simp
  have sh2: "shallow ?t2 ?kd (Suc m)" by (rule shallow_rm_tree [OF Cons.prems(2)])
  have d2: "distinct ns" using Cons.prems(3) by simp
  have k2: "\<forall>g\<in>set ns. ?kd @ [g] \<in> fst ` set ?t2"
  proof
    fix g assume g: "g \<in> set ns"
    with Cons.prems(3) have "g \<noteq> f" by auto
    then have "\<not> prefix ?k (?kd @ [g])" by simp
    moreover from Cons.prems(4) g have "?kd @ [g] \<in> fst ` set t" by simp
    ultimately show "?kd @ [g] \<in> fst ` set ?t2" by (force simp: rm_tree_def)
  qed
  have "for_each (\<lambda>t' f. if isdir t' (join d f) then erase_job_dir m t' (join d f)
                                else keep t' (os_remove t' (join d f))) ?t2 ns
          = (filter (\<lambda>e. \<not> (\<exists>f\<in>set ns. prefix (?kd @ [f]) (fst e))) ?t2, None)"
    by (rule Cons.IH [OF wf2 sh2 d2 k2])
  moreover have "filter (\<lambda>e. \<not> (\<exists>f\<in>set ns. prefix (?kd @ [f]) (fst e))) ?t2
                 = filter (\<lambda>e. \<not> (\<exists>g\<in>set (f # ns). prefix (?kd @ [g]) (fst e))) t"
    by (auto simp: rm_tree_def intro: filter_cong)
  ultimately show ?case using step by simp
qed

lemma children_keys: "f \<in> set (children t k) \<longleftrightarrow> k @ [f] \<in> fst ` set t"
proof
  assume "f \<in> set (children t k)"
  then obtain e where e: "e \<in> set t" "fst e \<noteq> []" "butlast (fst e) = k" "last (fst e) = f"
    by (auto simp: children_def)
  then have "fst e = k @ [f]" by (metis append_butlast_last_id)
  with e(1) show "k @ [f] \<in> fst ` set t" by (metis image_eqI)
next
  assume "k @ [f] \<in> fst ` set t"
  then obtain e where "e \<in> set t" "fst e = k @ [f]" by auto
  then show "f \<in> set (children t k)" by (force simp: children_def)
qed

lemma erase_job_dir_removes:
  "well_formed t \<Longrightarrow> lookupc t (split_path d) = Some Dir \<Longrightarrow> split_path d \<noteq> []
   \<Longrightarrow> shallow t (split_path d) n
   \<Longrightarrow> erase_job_dir n t d = (rm_tree t (split_path d), None)"
proof (induction n arbitrary: t d)
  case 0
  from lookupc_key [OF 0(2,3)] 0(4) show ?case by (auto simp: shallow_def)
next
  case (Suc m)
  let ?kd = "split_path d"
  let ?ns = "children t ?kd"
  let ?t1 = "filter (\<lambda>e. \<not> (\<exists>f\<in>set ?ns. prefix (?kd @ [f]) (fst e))) t"
  have ld: "listdir t d = Inr ?ns" using Suc.prems(2) by (simp add: listdir_def)
  have loop: "for_each (\<lambda>t' f. if isdir t' (join d f) then erase_job_dir m t' (join d f)
                                else keep t' (os_remove t' (join d f))) t ?ns = (?t1, None)"
  proof (rule erase_loop [OF Suc.IH Suc.prems(1,4)])
    show "distinct ?ns" by (simp add: children_def)
    show "\<forall>f\<in>set ?ns. ?kd @ [f] \<in> fst ` set t" by (simp add: children_keys)
  qed
  have below: "(\<exists>f\<in>set ?ns. prefix (?kd @ [f]) (fst e)) \<longleftrightarrow> strict_prefix ?kd (fst e)"
    if e: "e \<in> set t" for e
  proof
    assume "\<exists>f\<in>set ?ns. prefix (?kd @ [f]) (fst e)"
    then obtain f zs where "fst e = (?kd @ [f]) @ zs" by (auto elim: prefixE)
    then have "fst e = ?kd @ f # zs" by simp
    then show "strict_prefix ?kd (fst e)" by (metis strict_prefixI')
  next
    assume "strict_prefix ?kd (fst e)"
    then obtain x ext where "fst e = ?kd @ x # ext" by (auto elim: strict_prefixE')
    then have x: "fst e = (?kd @ [x]) @ ext" by simp
    with e have "(?kd @ [x]) @ ext \<in> fst ` set t" by (metis image_eqI)
    from prefix_is_key [OF Suc.prems(1) this] have "x \<in> set ?ns" by (simp add: children_keys)
    with x show "\<exists>f\<in>set ?ns. prefix (?kd @ [f]) (fst e)" by (metis prefixI)
  qed
  have t1: "?t1 = filter (\<lambda>e. \<not> strict_prefix ?kd (fst e)) t"
  proof (rule filter_cong [OF refl])
    fix e assume "e \<in> set t"
    from below [OF this]
    show "(\<not> (\<exists>f\<in>set ?ns. prefix (?kd @ [f]) (fst e))) = (\<not> strict_prefix ?kd (fst e))"
      by simp
  qed
  let ?u = "filter (\<lambda>e. \<not> strict_prefix ?kd (fst e)) t"
  from loop t1 have loop': "for_each (\<lambda>t' f. if isdir t' (join d f) then erase_job_dir m t' (join d f)
                                else keep t' (os_remove t' (join d f))) t ?ns = (?u, None)"
    by (simp only:)
  have l1: "lookupc ?u ?kd = Some Dir"
    using Suc.prems(2,3) map_of_filter_pred [of "\<lambda>k. \<not> strict_prefix ?kd k" t ?kd]
    by (simp add: lookupc_def)
  have c1: "children ?u ?kd = []"
  proof -
    have "\<not> (fst e \<noteq> [] \<and> butlast (fst e) = ?kd)" if "e \<in> set ?u" for e
    proof
      assume a: "fst e \<noteq> [] \<and> butlast (fst e) = ?kd"
      then have "fst e = ?kd @ [last (fst e)]" by (metis append_butlast_last_id)
      then have "strict_prefix ?kd (fst e)" by (metis strict_prefixI')
      with that show False by simp
    qed
    then show ?thesis by (auto simp: children_def filter_empty_conv)
  qed
  have "(\<not> strict_prefix ?kd k \<and> k \<noteq> ?kd) = (\<not> prefix ?kd k)" for k
    by (auto simp: strict_prefix_def)
  then have "del ?u ?kd = rm_tree t ?kd"
    by (simp add: del_def rm_tree_def conj_commute)
  with l1 c1 have "os_rmdir ?u d = Inr (rm_tree t ?kd)" by (simp add: os_rmdir_def)
  with ld loop' show ?case by (simp add: keep_def)
qed

text \<open>
  C7 (as the code has it). In a well-formed tree that is not deeper below the directory
  than the interpreter may recurse, \<open>erase_job_dir\<close> removes the directory and all
  below it and leaves every other entry as it was. For a directory that does not exist
  it raises FileNotFoundError, from \<open>os.listdir\<close>, and changes nothing.
\<close>

theorem erase_job_dir_existing_or_missing:
  "(well_formed t \<and> isdir t d \<and> split_path d \<noteq> [] \<and> shallow t (split_path d) n \<longrightarrow>
      (\<exists>t'. erase_job_dir n t d = (t', None)
         \<and> (\<forall>k. lookupc t' k = (if prefix (split_path d) k then None else lookupc t k))))
   \<and> (lookup t d = None \<longrightarrow> erase_job_dir (Suc n) t d = (t, Some FileNotFoundError))"
proof (intro conjI impI)
  assume a: "well_formed t \<and> isdir t d \<and> split_path d \<noteq> [] \<and> shallow t (split_path d) n"
  then have "erase_job_dir n t d = (rm_tree t (split_path d), None)"
    by (intro erase_job_dir_removes) (auto simp: isdir_def lookup_def)
  with a show "\<exists>t'. erase_job_dir n t d = (t', None)
         \<and> (\<forall>k. lookupc t' k = (if prefix (split_path d) k then None else lookupc t k))"
    by (simp add: lookupc_rm_tree)
next
  assume "lookup t d = None"
  then show "erase_job_dir (Suc n) t d = (t, Some FileNotFoundError)"
    by (simp add: listdir_def lookup_def)
qed

theorem erase_job_dir_existing_or_missing_witness:
  "well_formed (files store2) \<and> isdir (files store2) ''/home/.KVFinder-web/A''
   \<and> shallow (files store2) (split_path ''/home/.KVFinder-web/A'') 5
   \<and> (\<exists>t'. erase_job_dir 5 (files store2) ''/home/.KVFinder-web/A'' = (t', None)
        \<and> lookupc t' [''home'', ''.KVFinder-web'', ''A'', ''job.toml''] = None
        \<and> lookupc t' [''home'', ''.KVFinder-web'', ''B'', ''job.toml'']
            = lookupc (files store2) [''home'', ''.KVFinder-web'', ''B'', ''job.toml''])
   \<and> lookup (files store2) ''/home/.KVFinder-web/C'' = None
   \<and> erase_job_dir (Suc 5) (files store2) ''/home/.KVFinder-web/C''
       = (files store2, Some FileNotFoundError)"
proof -
  have a: "well_formed (files store2)" by code_simp
  have b: "isdir (files store2) ''/home/.KVFinder-web/A''" by code_simp
  have c: "split_path ''/home/.KVFinder-web/A'' = [''home'', ''.KVFinder-web'', ''A'']" by code_simp
  have d: "shallow (files store2) (split_path ''/home/.KVFinder-web/A'') 5" by code_simp
  have e: "lookup (files store2) ''/home/.KVFinder-web/C'' = None" by code_simp
  from erase_job_dir_existing_or_missing [of "files store2" "''/home/.KVFinder-web/A''" 5]
  obtain t' where t': "erase_job_dir 5 (files store2) ''/home/.KVFinder-web/A'' = (t', None)"
    and l: "\<forall>k. lookupc t' k = (if prefix (split_path ''/home/.KVFinder-web/A'') k then None
                                  else lookupc (files store2) k)"
    using a b c d by auto
  from l have "lookupc t' [''home'', ''.KVFinder-web'', ''A'', ''job.toml''] = None"
    "lookupc t' [''home'', ''.KVFinder-web'', ''B'', ''job.toml'']
            = lookupc (files store2) [''home'', ''.KVFinder-web'', ''B'', ''job.toml'']"
    by (simp_all add: c)
  moreover from erase_job_dir_existing_or_missing [of "files store2" "''/home/.KVFinder-web/C''" 5] e
  have "erase_job_dir (Suc 5) (files store2) ''/home/.KVFinder-web/C''
       = (files store2, Some FileNotFoundError)" by blast
  ultimately show ?thesis using a b d e t' by blast
qed

text \<open>
  C7, as stated, fails: erasing the record directory of an identifier that has none
  raises FileNotFoundError.
\<close>

theorem erase_missing_directory_raises:
  "erase_job_dir 1000 (files store2) ''/home/.KVFinder-web/C'' = (files store2, Some FileNotFoundError)"
  by code_simp

subsection \<open>A job that the service no longer knows\<close>

lemma join_trailing_slash:
  "x \<noteq> [] \<Longrightarrow> hd x \<noteq> CHR ''/'' \<Longrightarrow> join h (x @ ''/'') = join h x @ ''/''"
  by (cases x) (auto simp: join_def)

lemma split_path_store: "split_path (join h ''.KVFinder-web/'') = split_path (join h ''.KVFinder-web'')"
  using join_trailing_slash [of "''.KVFinder-web''" h] split_path_slash [of "join h ''.KVFinder-web''"]
  by simp

text \<open>
  C1. When the GET for a tracked job, whose record directory exists, is answered with
  not-found, the handling of that reply raises nothing, sets the wait flag, removes the
  record directory, so that the identifier is no longer among the jobs of the store,
  and emits exactly one \<open>id_signal\<close>, which carries that identifier.
\<close>

theorem expired_job_is_erased:
  assumes "remote cfg i = ContentNotFoundError"
    and "job_info (fst s) = Some j" and "job_id j = i"
    and "well_formed (files (snd s))"
    and "isdir (files (snd s)) (job_dir (home cfg) i)"
    and "component i"
    and "shallow (files (snd s)) (split_path (job_dir (home cfg) i)) (recursion_limit cfg)"
  shows "\<exists>s'. get_results cfg i s = (s', None)
      \<and> wait (fst s')
      \<and> lookup (files (snd s')) (job_dir (home cfg) i) = None
      \<and> (\<forall>js. get_jobs (home cfg) (files (snd s')) = Inr js \<longrightarrow> i \<notin> set js)
      \<and> filter is_id_signal (events_since (snd s) (snd s')) = [IdSignal i]"
proof -
  let ?t = "files (snd s)"
  let ?ks = "split_path (join (home cfg) ''.KVFinder-web'')"
  let ?kd = "split_path (job_dir (home cfg) i)"
  let ?t' = "rm_tree ?t ?kd"
  let ?w1 = "emit (IdSignal i) (emit ServerUp (emit (Get i) (snd s)))"
  have kd: "?kd = ?ks @ [i]" using assms(6) by (simp add: job_dir_def split_path_join)
  have er: "erase_job_dir (recursion_limit cfg) ?t (job_dir (home cfg) i) = (?t', None)"
    using assms(4,5,7) kd by (intro erase_job_dir_removes) (auto simp: isdir_def lookup_def)
  have gone: "lookup ?t' (job_dir (home cfg) i) = None"
    using kd by (simp add: lookup_def lookupc_rm_tree)
  have notin: "i \<notin> set js" if "get_jobs (home cfg) ?t' = Inr js" for js
  proof -
    from that have "js = children ?t' ?ks"
      by (auto simp: get_jobs_def listdir_def split_path_store split: option.splits node.splits)
    moreover have "?ks @ [i] \<notin> fst ` set ?t'" by (auto simp: rm_tree_def kd)
    ultimately show ?thesis by (simp add: children_keys)
  qed
  define k where "k = (fst s)\<lparr>wait := True\<rparr>"
  define s' where "s' = (case get_jobs (home cfg) ?t' of
                           Inl e \<Rightarrow> (k, ?w1\<lparr>files := ?t'\<rparr>)
                         | Inr js \<Rightarrow> (k, emit (AvailableJobsSignal js) (?w1\<lparr>files := ?t'\<rparr>)))"
  have f1: "files ?w1 = ?t" by (simp add: emit_def)
  have g: "get_results cfg i s = (s', None)"
    using assms(1,2,3) er
    by (simp add: get_results_def handle_get_response_def handle_not_found_def signal_def
          f1 s'_def k_def Let_def split: sum.splits)
  have w: "wait (fst s')" by (simp add: s'_def k_def split: sum.splits)
  have fs': "files (snd s') = ?t'" by (simp add: s'_def emit_def split: sum.splits)
  have ev: "filter is_id_signal (events_since (snd s) (snd s')) = [IdSignal i]"
    by (simp add: s'_def emit_def events_since_def split: sum.splits)
  from g w gone notin ev show ?thesis by (auto simp: fs')
qed

theorem expired_job_is_erased_witness:
  "\<exists>s'. get_results cfg_expired ''A'' (worker_a, store2) = (s', None)
      \<and> wait (fst s')
      \<and> lookup (files (snd s')) (job_dir (home cfg_expired) ''A'') = None
      \<and> get_jobs (home cfg_expired) (files (snd s')) = Inr [''B'']
      \<and> filter is_id_signal (events_since (snd (worker_a, store2)) (snd s')) = [IdSignal ''A'']"
proof -
  have a: "remote cfg_expired ''A'' = ContentNotFoundError" by (simp add: cfg_expired_def)
  have b: "job_info (fst (worker_a, store2)) = Some jq" by (simp add: worker_a_def)
  have c: "job_id jq = ''A''" by (simp add: jq_def jp_def)
  have d: "well_formed (files (snd (worker_a, store2)))" by code_simp
  have e: "isdir (files (snd (worker_a, store2))) (job_dir (home cfg_expired) ''A'')" by code_simp
  have f: "component ''A''" by code_simp
  have g: "shallow (files (snd (worker_a, store2))) (split_path (job_dir (home cfg_expired) ''A''))
             (recursion_limit cfg_expired)" by code_simp
  have h: "get_jobs (home cfg_expired) (files (snd (fst (get_results cfg_expired ''A'' (worker_a, store2)))))
            = Inr [''B'']" by code_simp
  from expired_job_is_erased [OF a b c d e f g] obtain s'
    where s': "get_results cfg_expired ''A'' (worker_a, store2) = (s', None)"
      and r: "wait (fst s')" "lookup (files (snd s')) (job_dir (home cfg_expired) ''A'') = None"
        "filter is_id_signal (events_since (snd (worker_a, store2)) (snd s')) = [IdSignal ''A'']"
    by blast
  from h s' have "get_jobs (home cfg_expired) (files (snd s')) = Inr [''B'']" by simp
  with s' r show ?thesis by blast
qed

end
